theory Spec2Isabelle
  imports Main "HOL-Library.Word" "HOL-Library.Monad_Syntax"
begin

unbundle bit_operations_syntax

section \<open>The DRI2 buffer and swap engine of the armsoc driver\<close>

text \<open>
  A shallow embedding of \<^verbatim>\<open>src/armsoc_dri2.c\<close>.

  Pointers are keys of explicit stores in a \<open>world\<close> record: DRI2 buffers, pixmaps,
  buffer objects (\<open>struct armsoc_bo\<close>) and drawables (keyed by their XID).  A function
  of the file becomes a function on worlds.  Its result is an \<open>option\<close>: \<open>None\<close> stands
  for the C program leaving defined behaviour (a dereference of \<open>NULL\<close> or of a freed
  object, an out-of-range slot of \<open>pPixmaps\<close>, a failed \<open>assert\<close>, a division by zero).

  Every call that leaves the file and matters to a caller is recorded in the \<open>trace\<close> of
  the world, newest event first.  What such a call answers (an allocation that may fail,
  the result of the page-flip request) is an input of the model, collected in \<open>env\<close>.
\<close>

type_synonym u32 = "32 word"

subsection \<open>Constants of the DRI2 protocol and of the file\<close>

definition DRI2BufferFrontLeft :: u32 where
  "DRI2BufferFrontLeft = 0"

definition DRI2BufferBackLeft :: u32 where
  "DRI2BufferBackLeft = 1"

definition DRI2_EXCHANGE_COMPLETE :: int where
  "DRI2_EXCHANGE_COMPLETE = 1"

definition DRI2_BLIT_COMPLETE :: int where
  "DRI2_BLIT_COMPLETE = 2"

definition DRI2_FLIP_COMPLETE :: int where
  "DRI2_FLIP_COMPLETE = 3"

definition ARMSOC_SWAP_FAKE_FLIP :: int where
  "ARMSOC_SWAP_FAKE_FLIP = push_bit (0::nat) 1"

definition ARMSOC_SWAP_FAIL :: int where
  "ARMSOC_SWAP_FAIL = push_bit (1::nat) 1"

subsection \<open>Records\<close>

datatype drawable_type = DRAWABLE_WINDOW | DRAWABLE_PIXMAP | UNDRAWABLE_WINDOW

text \<open>
  A drawable as this file reads it.  \<open>draw_pixmap\<close> is what \<^verbatim>\<open>draw2pix\<close> answers (the
  window's pixmap, or the pixmap itself) and \<open>dri2_can_flip\<close> what \<^verbatim>\<open>DRI2CanFlip\<close>
  answers; both live outside this file.
\<close>

record drawable =
  draw_type :: drawable_type
  draw_width :: nat
  draw_height :: nat
  draw_depth :: nat
  draw_pixmap :: nat
  dri2_can_flip :: bool

text \<open>The memory object behind a pixmap: \<open>fb_id = 0\<close> means no framebuffer is attached.\<close>

record armsoc_bo =
  bo_name :: u32
  fb_id :: u32
  bo_width :: u32
  bo_height :: u32
  bo_refcnt :: int

record pixmap =
  pix_bo :: "nat option"
  pix_refcnt :: int
  devKind :: u32
  bitsPerPixel :: "8 word"

text \<open>
  \<^verbatim>\<open>struct ARMSOCDRI2BufferRec\<close>, with the fields of its \<^verbatim>\<open>DRI2BufferRec base\<close> first.
  \<open>pPixmaps\<close> is the allocated array; an element \<open>None\<close> is a \<open>NULL\<close> pointer.
\<close>

record ARMSOCDRI2BufferRec =
  attachment :: u32
  name :: u32
  pitch :: u32
  cpp :: u32
  format :: u32
  buf_flags :: u32
  pPixmaps :: "nat option list"
  currentPixmap :: u32
  numPixmaps :: u32
  refcnt :: int
  attempted_fb_alloc :: bool

record ARMSOCDRISwapCmd =
  swap_type :: int
  client :: nat
  draw_id :: nat
  pDstBuffer :: nat
  pSrcBuffer :: nat
  func :: nat
  swapCount :: int
  flags :: int
  data :: nat

datatype dref = Drawable nat | PixmapDrawable nat

datatype event =
    EvDRI2SwapComplete nat nat int nat nat
  | EvPixmapExchange nat nat
  | EvSetScanoutBo nat
  | EvPageFlip nat u32
  | EvCopyArea dref dref nat nat
  | EvCreatePixmap nat nat nat bool
  | EvDestroyPixmap nat
  | EvAddFb nat
  | EvRmFb nat
  | EvRegisterExternalAccess nat
  | EvDeregisterExternalAccess nat
  | EvPendingDeletions

record world =
  bufs :: "nat \<rightharpoonup> ARMSOCDRI2BufferRec"
  pixmaps :: "nat \<rightharpoonup> pixmap"
  bos :: "nat \<rightharpoonup> armsoc_bo"
  drawables :: "nat \<rightharpoonup> drawable"
  NoFlip :: bool
  driNumBufs :: u32
  use_page_flip_events :: bool
  pending_flips :: int
  scanout :: "nat option"
  next_buf :: nat
  next_pix :: nat
  next_bo :: nat
  trace :: "event list"

text \<open>
  The answers of the collaborators during one entry into the driver:
  \<^item> \<open>calloc_ok\<close>: \<^verbatim>\<open>calloc\<close> of the buffer or command structure succeeds;
  \<^item> \<open>ring_ok\<close>: the allocation of the \<open>pPixmaps\<close> array succeeds;
  \<^item> \<open>new_pixmap\<close>: what \<^verbatim>\<open>CreatePixmap\<close> returns: \<open>None\<close> for \<open>NULL\<close>, \<open>Some None\<close> for
    a pixmap without a buffer object, \<open>Some (Some bo)\<close> for a pixmap backed by \<open>bo\<close>;
  \<^item> \<open>add_fb_id\<close>: the framebuffer id \<^verbatim>\<open>armsoc_bo_add_fb\<close> obtains, \<open>0\<close> when it fails;
  \<^item> \<open>page_flip_ret\<close>: the result of \<^verbatim>\<open>drmmode_page_flip\<close>;
  \<^item> \<open>scratch_gc_ok\<close>: \<^verbatim>\<open>GetScratchGC\<close> returns a graphics context.
\<close>

record env =
  calloc_ok :: bool
  ring_ok :: bool
  new_pixmap :: "armsoc_bo option option"
  new_devKind :: u32
  new_bitsPerPixel :: "8 word"
  add_fb_id :: u32
  page_flip_ret :: int
  scratch_gc_ok :: bool

definition emit :: "event \<Rightarrow> world \<Rightarrow> world" where
  "emit e w = w\<lparr>trace := e # trace w\<rparr>"

text \<open>The calls of one kind that a world has seen, newest first.\<close>

datatype kind =
    KNotify | KExchange | KScanout | KPageFlip | KCopy | KCreate | KDestroy
  | KAddFb | KRmFb | KRegister | KDeregister | KDeletions

fun kind_of :: "event \<Rightarrow> kind" where
  "kind_of (EvDRI2SwapComplete c d t f x) = KNotify"
| "kind_of (EvPixmapExchange a b) = KExchange"
| "kind_of (EvSetScanoutBo b) = KScanout"
| "kind_of (EvPageFlip d f) = KPageFlip"
| "kind_of (EvCopyArea s d x y) = KCopy"
| "kind_of (EvCreatePixmap x y z f) = KCreate"
| "kind_of (EvDestroyPixmap p) = KDestroy"
| "kind_of (EvAddFb b) = KAddFb"
| "kind_of (EvRmFb b) = KRmFb"
| "kind_of (EvRegisterExternalAccess p) = KRegister"
| "kind_of (EvDeregisterExternalAccess p) = KDeregister"
| "kind_of EvPendingDeletions = KDeletions"

definition events :: "kind \<Rightarrow> world \<Rightarrow> event list" where
  "events k w = filter (\<lambda>e. kind_of e = k) (trace w)"

subsection \<open>The collaborators\<close>

text \<open>
  Modelled from the spec: the memory-object operations \<^verbatim>\<open>armsoc_bo_get_fb\<close>,
  \<^verbatim>\<open>armsoc_bo_add_fb\<close>, \<^verbatim>\<open>armsoc_bo_rm_fb\<close>, \<^verbatim>\<open>armsoc_bo_reference\<close> and
  \<^verbatim>\<open>armsoc_bo_unreference\<close> are not in this file.  The spec lists them as
  \<open>has_scanout(handle) -> fb_id|0\<close>, \<open>add_scanout(handle) -> ok|error\<close>,
  \<open>remove_scanout(handle)\<close>, \<open>reference(handle)\<close> and \<open>unreference(handle)\<close>.
\<close>

definition armsoc_bo_get_fb :: "world \<Rightarrow> nat \<Rightarrow> u32 option" where
  "armsoc_bo_get_fb w bo = map_option fb_id (bos w bo)"

definition armsoc_bo_add_fb :: "env \<Rightarrow> nat \<Rightarrow> world \<Rightarrow> (int \<times> world) option" where
  "armsoc_bo_add_fb e bo w =
     (case bos w bo of
        None \<Rightarrow> None
      | Some b \<Rightarrow>
          if add_fb_id e = 0 then Some (- 1, emit (EvAddFb bo) w)
          else Some (0, emit (EvAddFb bo) (w\<lparr>bos := (bos w)(bo \<mapsto> b\<lparr>fb_id := add_fb_id e\<rparr>)\<rparr>)))"

definition armsoc_bo_rm_fb :: "nat \<Rightarrow> world \<Rightarrow> world option" where
  "armsoc_bo_rm_fb bo w =
     (case bos w bo of
        None \<Rightarrow> None
      | Some b \<Rightarrow> Some (emit (EvRmFb bo) (w\<lparr>bos := (bos w)(bo \<mapsto> b\<lparr>fb_id := 0\<rparr>)\<rparr>)))"

definition armsoc_bo_reference :: "nat \<Rightarrow> world \<Rightarrow> world option" where
  "armsoc_bo_reference bo w =
     (case bos w bo of
        None \<Rightarrow> None
      | Some b \<Rightarrow> Some (w\<lparr>bos := (bos w)(bo \<mapsto> b\<lparr>bo_refcnt := bo_refcnt b + 1\<rparr>)\<rparr>))"

definition armsoc_bo_unreference :: "nat \<Rightarrow> world \<Rightarrow> world option" where
  "armsoc_bo_unreference bo w =
     (case bos w bo of
        None \<Rightarrow> None
      | Some b \<Rightarrow> Some (w\<lparr>bos := (bos w)(bo \<mapsto> b\<lparr>bo_refcnt := bo_refcnt b - 1\<rparr>)\<rparr>))"

text \<open>
  Modelled from the spec: \<^verbatim>\<open>ARMSOCPixmapBo\<close> (the backing object of a surface, \<open>NULL\<close>
  when there is none), \<^verbatim>\<open>DestroyPixmap\<close> (\<open>destroy_surface(surface)\<close>: the surface drops one
  reference and goes away with its last one), \<^verbatim>\<open>ARMSOCPixmapExchange\<close> (the two surfaces
  exchange their backing objects, no pixel is copied) and \<^verbatim>\<open>set_scanout_bo\<close> (the object
  becomes the active scanout surface).
\<close>

definition ARMSOCPixmapBo :: "world \<Rightarrow> nat \<Rightarrow> nat option option" where
  "ARMSOCPixmapBo w p = map_option pix_bo (pixmaps w p)"

definition DestroyPixmap :: "nat \<Rightarrow> world \<Rightarrow> world option" where
  "DestroyPixmap p w =
     (case pixmaps w p of
        None \<Rightarrow> None
      | Some px \<Rightarrow>
          Some (emit (EvDestroyPixmap p)
            (if pix_refcnt px \<le> 1 then w\<lparr>pixmaps := (pixmaps w)(p := None)\<rparr>
             else w\<lparr>pixmaps := (pixmaps w)(p \<mapsto> px\<lparr>pix_refcnt := pix_refcnt px - 1\<rparr>)\<rparr>)))"

definition ARMSOCPixmapExchange :: "nat \<Rightarrow> nat \<Rightarrow> world \<Rightarrow> world option" where
  "ARMSOCPixmapExchange a b w =
     (case (pixmaps w a, pixmaps w b) of
        (Some pa, Some pb) \<Rightarrow>
          Some (emit (EvPixmapExchange a b)
            (w\<lparr>pixmaps := (pixmaps w)(a \<mapsto> pa\<lparr>pix_bo := pix_bo pb\<rparr>,
                                      b \<mapsto> pb\<lparr>pix_bo := pix_bo pa\<rparr>)\<rparr>))
      | _ \<Rightarrow> None)"

definition set_scanout_bo :: "nat \<Rightarrow> world \<Rightarrow> world" where
  "set_scanout_bo bo w = emit (EvSetScanoutBo bo) (w\<lparr>scanout := Some bo\<rparr>)"

definition draw2pix :: "world \<Rightarrow> dref \<Rightarrow> nat option" where
  "draw2pix w r =
     (case r of
        Drawable d \<Rightarrow> map_option draw_pixmap (drawables w d)
      | PixmapDrawable p \<Rightarrow> Some p)"

subsection \<open>Helpers of the file\<close>

text \<open>The read \<^verbatim>\<open>buf->pPixmaps[i]\<close>: \<open>None\<close> outside the allocated array.\<close>

definition pixmap_at :: "ARMSOCDRI2BufferRec \<Rightarrow> nat \<Rightarrow> nat option option" where
  "pixmap_at buf i = (if i < length (pPixmaps buf) then Some (pPixmaps buf ! i) else None)"

definition dri2draw :: "world \<Rightarrow> nat \<Rightarrow> nat \<Rightarrow> dref option" where
  "dri2draw w pDraw b =
     (case bufs w b of
        None \<Rightarrow> None
      | Some buf \<Rightarrow>
          if attachment buf = DRI2BufferFrontLeft then Some (Drawable pDraw)
          else (case pixmap_at buf (unat (currentPixmap buf)) of
                  Some (Some p) \<Rightarrow> Some (PixmapDrawable p)
                | _ \<Rightarrow> None))"

definition canflip :: "world \<Rightarrow> drawable \<Rightarrow> bool" where
  "canflip w pDraw =
     (if NoFlip w then False
      else draw_type pDraw = DRAWABLE_WINDOW \<and> dri2_can_flip pDraw)"

definition exchangebufs :: "nat \<Rightarrow> nat \<Rightarrow> nat \<Rightarrow> world \<Rightarrow> world option" where
  "exchangebufs pDraw a b w = do {
     da \<leftarrow> dri2draw w pDraw a;
     aPix \<leftarrow> draw2pix w da;
     db \<leftarrow> dri2draw w pDraw b;
     bPix \<leftarrow> draw2pix w db;
     w1 \<leftarrow> ARMSOCPixmapExchange aPix bPix w;
     bufa \<leftarrow> bufs w1 a;
     bufb \<leftarrow> bufs w1 b;
     Some (w1\<lparr>bufs := (bufs w1)(a \<mapsto> bufa\<lparr>name := name bufb\<rparr>,
                                 b \<mapsto> bufb\<lparr>name := name bufa\<rparr>)\<rparr>)
   }"

text \<open>
  \<^verbatim>\<open>createpix\<close>: the surface is requested with the scanout flag exactly when the drawable
  can flip.  A new pixmap takes the next free key and starts with one reference.
\<close>

definition createpix :: "env \<Rightarrow> drawable \<Rightarrow> world \<Rightarrow> nat option \<times> world" where
  "createpix e pDraw w =
     (let w1 = emit (EvCreatePixmap (draw_width pDraw) (draw_height pDraw) (draw_depth pDraw)
                       (canflip w pDraw)) w;
          p = next_pix w1
      in case new_pixmap e of
           None \<Rightarrow> (None, w1)
         | Some None \<Rightarrow>
             (Some p,
              w1\<lparr>pixmaps := (pixmaps w1)(p \<mapsto> \<lparr>pix_bo = None, pix_refcnt = 1,
                    devKind = new_devKind e, bitsPerPixel = new_bitsPerPixel e\<rparr>),
                 next_pix := Suc p\<rparr>)
         | Some (Some bo) \<Rightarrow>
             (Some p,
              w1\<lparr>pixmaps := (pixmaps w1)(p \<mapsto> \<lparr>pix_bo = Some (next_bo w1), pix_refcnt = 1,
                    devKind = new_devKind e, bitsPerPixel = new_bitsPerPixel e\<rparr>),
                 bos := (bos w1)(next_bo w1 \<mapsto> bo),
                 next_pix := Suc p, next_bo := Suc (next_bo w1)\<rparr>))"

subsection \<open>Buffer creation, reuse and destruction\<close>

text \<open>The \<^verbatim>\<open>fail:\<close> label of \<^verbatim>\<open>ARMSOCDRI2CreateBuffer\<close>, reached with a pixmap in hand.\<close>

definition CreateBuffer_fail :: "u32 \<Rightarrow> nat \<Rightarrow> world \<Rightarrow> (nat option \<times> world) option" where
  "CreateBuffer_fail att p w =
     (if att \<noteq> DRI2BufferFrontLeft then map_option (Pair None) (DestroyPixmap p w)
      else (case pixmaps w p of
              None \<Rightarrow> None
            | Some px \<Rightarrow>
                Some (None, w\<lparr>pixmaps := (pixmaps w)(p \<mapsto> px\<lparr>pix_refcnt := pix_refcnt px - 1\<rparr>)\<rparr>)))"

text \<open>
  \<^verbatim>\<open>ARMSOCDRI2CreateBuffer\<close>.  The result is the key of the new buffer, \<open>None\<close> when the
  function returns \<open>NULL\<close>.  \<^verbatim>\<open>calloc\<close> zeroes the structure, so \<open>currentPixmap\<close> is \<open>0\<close>
  and \<open>attempted_fb_alloc\<close> is false until the function says otherwise.
\<close>

definition ARMSOCDRI2CreateBuffer ::
  "env \<Rightarrow> nat \<Rightarrow> u32 \<Rightarrow> u32 \<Rightarrow> world \<Rightarrow> (nat option \<times> world) option" where
  "ARMSOCDRI2CreateBuffer e pDraw att fmt w =
     (case drawables w pDraw of
        None \<Rightarrow> None
      | Some d \<Rightarrow>
          if \<not> calloc_ok e then Some (None, w)
          else do {
            (pPixmap, w1) \<leftarrow>
              (if att = DRI2BufferFrontLeft then
                 (case pixmaps w (draw_pixmap d) of
                    None \<Rightarrow> None
                  | Some px \<Rightarrow>
                      Some (Some (draw_pixmap d),
                        w\<lparr>pixmaps := (pixmaps w)(draw_pixmap d \<mapsto>
                             px\<lparr>pix_refcnt := pix_refcnt px + 1\<rparr>)\<rparr>))
               else Some (createpix e d w));
            (case pPixmap of
               None \<Rightarrow> Some (None, w1)
             | Some p \<Rightarrow>
                 let numP = (if att = DRI2BufferBackLeft \<and> 2 < driNumBufs w1
                             then driNumBufs w1 - 1 else 1)
                 in if \<not> ring_ok e then CreateBuffer_fail att p w1
                    else (case ARMSOCPixmapBo w1 p of
                            None \<Rightarrow> None
                          | Some None \<Rightarrow> CreateBuffer_fail att p w1
                          | Some (Some bo) \<Rightarrow> do {
                              px \<leftarrow> pixmaps w1 p;
                              b \<leftarrow> bos w1 bo;
                              let buf = \<lparr>attachment = att, name = bo_name b,
                                         pitch = devKind px,
                                         cpp = ucast (bitsPerPixel px) div 8,
                                         format = fmt, buf_flags = 0,
                                         pPixmaps = (replicate (unat numP) None)[0 := Some p],
                                         currentPixmap = 0, numPixmaps = numP, refcnt = 1,
                                         attempted_fb_alloc = False\<rparr>;
                              (buf1, w2) \<leftarrow>
                                (if canflip w1 d \<and> att \<noteq> DRI2BufferFrontLeft then do {
                                   (ret, w') \<leftarrow> armsoc_bo_add_fb e bo w1;
                                   Some (buf\<lparr>attempted_fb_alloc := True\<rparr>, w')
                                 } else Some (buf, w1));
                              let w3 = emit (EvRegisterExternalAccess p) w2;
                              Some (Some (next_buf w3),
                                    w3\<lparr>bufs := (bufs w3)(next_buf w3 \<mapsto> buf1),
                                       next_buf := Suc (next_buf w3)\<rparr>)
                            }))
          })"

definition ARMSOCDRI2ReuseBufferNotify :: "env \<Rightarrow> nat \<Rightarrow> nat \<Rightarrow> world \<Rightarrow> world option" where
  "ARMSOCDRI2ReuseBufferNotify e pDraw buffer w =
     (case bufs w buffer of
        None \<Rightarrow> None
      | Some buf \<Rightarrow>
          if attachment buf = DRI2BufferFrontLeft then Some w
          else (case pixmap_at buf 0 of
                  Some (Some p0) \<Rightarrow>
                    (case ARMSOCPixmapBo w p0 of
                       Some (Some bo) \<Rightarrow> do {
                         fb \<leftarrow> armsoc_bo_get_fb w bo;
                         d \<leftarrow> drawables w pDraw;
                         let flippable = canflip w d;
                         w1 \<leftarrow> (if flippable \<and> \<not> attempted_fb_alloc buf \<and> fb = 0 then do {
                                  (ret, w') \<leftarrow> armsoc_bo_add_fb e bo w;
                                  Some (w'\<lparr>bufs := (bufs w')(buffer \<mapsto>
                                              buf\<lparr>attempted_fb_alloc := True\<rparr>)\<rparr>)
                                } else Some w);
                         (if \<not> flippable \<and> fb \<noteq> 0 then do {
                            buf1 \<leftarrow> bufs w1 buffer;
                            armsoc_bo_rm_fb bo
                              (w1\<lparr>bufs := (bufs w1)(buffer \<mapsto>
                                     buf1\<lparr>attempted_fb_alloc := False\<rparr>)\<rparr>)
                          } else Some w1)
                       }
                     | _ \<Rightarrow> None)
                | _ \<Rightarrow> None))"

text \<open>
  The loop of \<^verbatim>\<open>ARMSOCDRI2DestroyBuffer\<close>,
  \<^verbatim>\<open>for (i = 0; i < numBuffers && buf->pPixmaps[i] != NULL; i++)\<close>: the third argument
  is \<open>numBuffers - i\<close>, the iterations that remain.
\<close>

fun destroy_pixmaps :: "nat option list \<Rightarrow> nat \<Rightarrow> nat \<Rightarrow> world \<Rightarrow> world option" where
  "destroy_pixmaps pp i 0 w = Some w"
| "destroy_pixmaps pp i (Suc k) w =
     (if i < length pp then
        (case pp ! i of
           None \<Rightarrow> Some w
         | Some p \<Rightarrow>
             (case DestroyPixmap p (emit (EvDeregisterExternalAccess p) w) of
                None \<Rightarrow> None
              | Some w1 \<Rightarrow> destroy_pixmaps pp (Suc i) k w1))
      else None)"

text \<open>
  \<^verbatim>\<open>ARMSOCDRI2DestroyBuffer\<close> drops one reference and frees the buffer with its last one.
  It reads the screen through \<^verbatim>\<open>buf->pPixmaps[0]\<close> first, and \<open>numBuffers\<close> is an
  \<^verbatim>\<open>int\<close> taken from the unsigned \<open>driNumBufs - 1\<close>.
\<close>

definition ARMSOCDRI2DestroyBuffer :: "nat \<Rightarrow> world \<Rightarrow> world option" where
  "ARMSOCDRI2DestroyBuffer buffer w =
     (case bufs w buffer of
        None \<Rightarrow> None
      | Some buf \<Rightarrow>
          (case pixmap_at buf 0 of
             Some (Some p0) \<Rightarrow>
               (case pixmaps w p0 of
                  None \<Rightarrow> None
                | Some px0 \<Rightarrow>
                    if 0 < refcnt buf - 1
                    then Some (w\<lparr>bufs := (bufs w)(buffer \<mapsto> buf\<lparr>refcnt := refcnt buf - 1\<rparr>)\<rparr>)
                    else if attachment buf = DRI2BufferBackLeft \<and> \<not> 1 < driNumBufs w then None
                    else do {
                      let numBuffers = (if attachment buf = DRI2BufferBackLeft
                                        then sint (driNumBufs w - 1) else 1);
                      w1 \<leftarrow> destroy_pixmaps (pPixmaps buf) 0 (nat numBuffers) w;
                      Some (w1\<lparr>bufs := (bufs w1)(buffer := None)\<rparr>)
                    })
           | _ \<Rightarrow> None))"

definition ARMSOCDRI2ReferenceBuffer :: "nat \<Rightarrow> world \<Rightarrow> world option" where
  "ARMSOCDRI2ReferenceBuffer buffer w =
     (case bufs w buffer of
        None \<Rightarrow> None
      | Some buf \<Rightarrow> Some (w\<lparr>bufs := (bufs w)(buffer \<mapsto> buf\<lparr>refcnt := refcnt buf + 1\<rparr>)\<rparr>))"

text \<open>
  \<^verbatim>\<open>ARMSOCDRI2CopyRegion\<close>: the copy covers the whole drawable and is skipped when no
  scratch graphics context is to be had.
\<close>

definition ARMSOCDRI2CopyRegion :: "env \<Rightarrow> nat \<Rightarrow> nat \<Rightarrow> nat \<Rightarrow> world \<Rightarrow> world option" where
  "ARMSOCDRI2CopyRegion e pDraw pDst pSrc w = do {
     d \<leftarrow> drawables w pDraw;
     pSrcDraw \<leftarrow> dri2draw w pDraw pSrc;
     pDstDraw \<leftarrow> dri2draw w pDraw pDst;
     dstPix \<leftarrow> draw2pix w pDstDraw;
     if \<not> scratch_gc_ok e then Some w
     else Some (emit (EvCopyArea pSrcDraw pDstDraw (draw_width d) (draw_height d)) w)
   }"

subsection \<open>The ring of back buffers\<close>

text \<open>
  \<^verbatim>\<open>allocNextBuffer\<close> answers the new pixmap and its name (the values it stores through
  \<^verbatim>\<open>ppPixmap\<close> and \<^verbatim>\<open>name\<close> before returning \<open>TRUE\<close>), or \<open>None\<close> for \<open>FALSE\<close>.
\<close>

definition allocNextBuffer ::
  "env \<Rightarrow> drawable \<Rightarrow> world \<Rightarrow> ((nat \<times> u32) option \<times> world) option" where
  "allocNextBuffer e pDraw w =
     (case createpix e pDraw w of
        (None, w1) \<Rightarrow> Some (None, w1)
      | (Some p, w1) \<Rightarrow>
          (case ARMSOCPixmapBo w1 p of
             None \<Rightarrow> None
           | Some None \<Rightarrow> map_option (Pair None) (DestroyPixmap p w1)
           | Some (Some bo) \<Rightarrow> do {
               let w2 = emit (EvRegisterExternalAccess p) w1;
               b \<leftarrow> bos w2 bo;
               let new_name = bo_name b;
               fb \<leftarrow> armsoc_bo_get_fb w2 bo;
               if fb = 0 then do {
                 (ret, w3) \<leftarrow> armsoc_bo_add_fb e bo w2;
                 if ret \<noteq> 0
                 then map_option (Pair None)
                        (DestroyPixmap p (emit (EvDeregisterExternalAccess p) w3))
                 else Some (Some (p, new_name), w3)
               } else Some (Some (p, new_name), w2)
             }))"

text \<open>
  \<^verbatim>\<open>nextBuffer\<close>.  \<open>currentPixmap\<close> and \<open>numPixmaps\<close> are \<^verbatim>\<open>unsigned\<close>: the increment
  wraps and \<^verbatim>\<open>%=\<close> is the unsigned remainder.
\<close>

definition nextBuffer :: "env \<Rightarrow> nat \<Rightarrow> nat \<Rightarrow> world \<Rightarrow> world option" where
  "nextBuffer e pDraw backBuf w =
     (case drawables w pDraw of
        None \<Rightarrow> None
      | Some d \<Rightarrow>
          if driNumBufs w \<le> 2 then Some w
          else (case bufs w backBuf of
                  None \<Rightarrow> None
                | Some buf \<Rightarrow>
                    if numPixmaps buf = 0 then None
                    else
                      let cur = (currentPixmap buf + 1) mod numPixmaps buf;
                          buf1 = buf\<lparr>currentPixmap := cur\<rparr>
                      in (case pixmap_at buf1 (unat cur) of
                            None \<Rightarrow> None
                          | Some (Some p) \<Rightarrow>
                              (case ARMSOCPixmapBo w p of
                                 Some (Some bo) \<Rightarrow>
                                   (case bos w bo of
                                      None \<Rightarrow> None
                                    | Some b \<Rightarrow>
                                        Some (w\<lparr>bufs := (bufs w)(backBuf \<mapsto>
                                                buf1\<lparr>name := bo_name b\<rparr>)\<rparr>))
                               | _ \<Rightarrow> None)
                          | Some None \<Rightarrow>
                              (case allocNextBuffer e d w of
                                 None \<Rightarrow> None
                               | Some (Some (p, nm), w1) \<Rightarrow>
                                   Some (w1\<lparr>bufs := (bufs w1)(backBuf \<mapsto>
                                           buf1\<lparr>pPixmaps := (pPixmaps buf1)[unat cur := Some p],
                                                name := nm\<rparr>)\<rparr>)
                               | Some (None, w1) \<Rightarrow>
                                   if 0 < cur
                                   then Some (w1\<lparr>bufs := (bufs w1)(backBuf \<mapsto>
                                           buf1\<lparr>currentPixmap := cur - 1,
                                                numPixmaps := cur - 1 + 1\<rparr>)\<rparr>)
                                   else None))))"

text \<open>
  \<^verbatim>\<open>boFromBuffer\<close>.  A pixmap without a buffer object makes the result \<open>None\<close> as well:
  every caller hands the object to the memory-object layer at once.
\<close>

definition boFromBuffer :: "world \<Rightarrow> nat \<Rightarrow> nat option" where
  "boFromBuffer w b =
     (case bufs w b of
        None \<Rightarrow> None
      | Some buf \<Rightarrow>
          (case pixmap_at buf (unat (currentPixmap buf)) of
             Some (Some p) \<Rightarrow> (case pixmaps w p of None \<Rightarrow> None | Some px \<Rightarrow> pix_bo px)
           | _ \<Rightarrow> None))"

subsection \<open>Completion and scheduling of a swap\<close>

text \<open>
  The block of \<^verbatim>\<open>ARMSOCDRI2SwapComplete\<close> under
  \<^verbatim>\<open>if ((cmd->flags & ARMSOC_SWAP_FAIL) == 0)\<close>: the drawable is looked up by its id;
  when it is found, the buffers are exchanged and the ring advanced (for a flip that is
  not flagged \<^verbatim>\<open>ARMSOC_SWAP_FAKE_FLIP\<close>), the client is notified, and the new
  destination object becomes the scanout object (under the same condition again).
\<close>

definition swap_not_failed :: "env \<Rightarrow> ARMSOCDRISwapCmd \<Rightarrow> world \<Rightarrow> world option" where
  "swap_not_failed e cmd w =
     (case drawables w (draw_id cmd) of
        None \<Rightarrow> Some w
      | Some d \<Rightarrow> do {
          wa \<leftarrow>
            (if swap_type cmd \<noteq> DRI2_BLIT_COMPLETE
                \<and> flags cmd AND ARMSOC_SWAP_FAKE_FLIP = 0 then
               if swap_type cmd \<noteq> DRI2_FLIP_COMPLETE then None
               else do {
                 wx \<leftarrow> exchangebufs (draw_id cmd) (pSrcBuffer cmd) (pDstBuffer cmd) w;
                 src \<leftarrow> bufs wx (pSrcBuffer cmd);
                 if attachment src = DRI2BufferBackLeft
                 then nextBuffer e (draw_id cmd) (pSrcBuffer cmd) wx
                 else Some wx
               }
             else Some w);
          let wb = emit (EvDRI2SwapComplete (client cmd) (draw_id cmd) (swap_type cmd)
                           (func cmd) (data cmd)) wa;
          (if swap_type cmd \<noteq> DRI2_BLIT_COMPLETE
              \<and> flags cmd AND ARMSOC_SWAP_FAKE_FLIP = 0 then
             if swap_type cmd \<noteq> DRI2_FLIP_COMPLETE then None
             else map_option (\<lambda>bo. set_scanout_bo bo wb) (boFromBuffer wb (pDstBuffer cmd))
           else Some wb)
        })"

text \<open>
  \<^verbatim>\<open>ARMSOCDRI2SwapComplete\<close>.  The first component of the result is the command while it
  still waits for flip events, and \<open>None\<close> once it has been freed.
\<close>

definition ARMSOCDRI2SwapComplete ::
  "env \<Rightarrow> ARMSOCDRISwapCmd \<Rightarrow> world \<Rightarrow> (ARMSOCDRISwapCmd option \<times> world) option" where
  "ARMSOCDRI2SwapComplete e cmd w =
     (if 0 < swapCount cmd - 1 then Some (Some (cmd\<lparr>swapCount := swapCount cmd - 1\<rparr>), w)
      else do {
        old_src_bo \<leftarrow> boFromBuffer w (pSrcBuffer cmd);
        old_dst_bo \<leftarrow> boFromBuffer w (pDstBuffer cmd);
        w1 \<leftarrow> (if flags cmd AND ARMSOC_SWAP_FAIL = 0 then swap_not_failed e cmd w
               else Some w);
        w2 \<leftarrow> ARMSOCDRI2DestroyBuffer (pSrcBuffer cmd) w1;
        w3 \<leftarrow> ARMSOCDRI2DestroyBuffer (pDstBuffer cmd) w2;
        w4 \<leftarrow> armsoc_bo_unreference old_src_bo w3;
        w5 \<leftarrow> armsoc_bo_unreference old_dst_bo w4;
        Some (None, w5\<lparr>pending_flips := pending_flips w5 - 1\<rparr>)
      })"

text \<open>
  The three assignments to \<open>do_flip\<close> in \<^verbatim>\<open>ARMSOCDRI2ScheduleSwap\<close>, from the two
  framebuffer ids, the drawable and the two buffer objects.
\<close>

definition do_flip :: "world \<Rightarrow> drawable \<Rightarrow> u32 \<Rightarrow> u32 \<Rightarrow> armsoc_bo \<Rightarrow> armsoc_bo \<Rightarrow> bool" where
  "do_flip w pDraw src_fb_id dst_fb_id src_bo dst_bo =
     (let f = (src_fb_id \<noteq> 0 \<and> dst_fb_id \<noteq> 0 \<and> canflip w pDraw);
          f = (f \<and> bo_width src_bo = bo_width dst_bo);
          f = (f \<and> bo_height src_bo = bo_height dst_bo)
      in f)"

text \<open>
  The statements of \<^verbatim>\<open>ARMSOCDRI2ScheduleSwap\<close> under the comment ``obtain extra ref on
  buffers'': one reference on each buffer, the counter of pending flips, and one
  reference on each of the two buffer objects.  The result carries the two objects and
  their framebuffer ids.
\<close>

definition swap_take_refs ::
  "nat \<Rightarrow> nat \<Rightarrow> world \<Rightarrow> (nat \<times> nat \<times> u32 \<times> u32 \<times> world) option" where
  "swap_take_refs pDst pSrc w = do {
     w1 \<leftarrow> ARMSOCDRI2ReferenceBuffer pSrc w;
     w2 \<leftarrow> ARMSOCDRI2ReferenceBuffer pDst w1;
     let w3 = w2\<lparr>pending_flips := pending_flips w2 + 1\<rparr>;
     src_bo \<leftarrow> boFromBuffer w3 pSrc;
     dst_bo \<leftarrow> boFromBuffer w3 pDst;
     src_fb_id \<leftarrow> armsoc_bo_get_fb w3 src_bo;
     dst_fb_id \<leftarrow> armsoc_bo_get_fb w3 dst_bo;
     w4 \<leftarrow> armsoc_bo_reference src_bo w3;
     w5 \<leftarrow> armsoc_bo_reference dst_bo w4;
     Some (src_bo, dst_bo, src_fb_id, dst_fb_id, w5)
   }"

text \<open>
  \<^verbatim>\<open>ARMSOCDRI2ScheduleSwap\<close> answers \<open>TRUE\<close> or \<open>FALSE\<close>, the command when it is left
  waiting for flip events, and the new world.  The arguments \<open>target_msc\<close>, \<open>divisor\<close>
  and \<open>remainder\<close> are never read and are left out.
\<close>

definition ARMSOCDRI2ScheduleSwap ::
  "env \<Rightarrow> nat \<Rightarrow> nat \<Rightarrow> nat \<Rightarrow> nat \<Rightarrow> nat \<Rightarrow> nat \<Rightarrow> world
     \<Rightarrow> (bool \<times> ARMSOCDRISwapCmd option \<times> world) option" where
  "ARMSOCDRI2ScheduleSwap e cl pDraw pDst pSrc fn dt w =
     (case drawables w pDraw of
        None \<Rightarrow> None
      | Some d \<Rightarrow>
          if \<not> calloc_ok e then Some (False, None, w)
          else do {
            let cmd = \<lparr>swap_type = 0, client = cl, draw_id = pDraw, pDstBuffer = pDst,
                       pSrcBuffer = pSrc, func = fn, swapCount = 0, flags = 0, data = dt\<rparr>;
            (src_bo, dst_bo, src_fb_id, dst_fb_id, w5) \<leftarrow> swap_take_refs pDst pSrc w;
            sb \<leftarrow> bos w5 src_bo;
            db \<leftarrow> bos w5 dst_bo;
            if do_flip w5 d src_fb_id dst_fb_id sb db then do {
              let cmd = cmd\<lparr>swap_type := DRI2_FLIP_COMPLETE\<rparr>;
              let w6 = emit (EvPageFlip pDraw src_fb_id) (emit EvPendingDeletions w5);
              let ret = page_flip_ret e;
              if ret < 0 then do {
                let cmd = cmd\<lparr>flags := flags cmd OR ARMSOC_SWAP_FAIL\<rparr>;
                let cmd = cmd\<lparr>swapCount :=
                             (if use_page_flip_events w6 then - (ret + 1) else 0)\<rparr>;
                if swapCount cmd = 0
                then map_option (\<lambda>(c, w'). (False, c, w')) (ARMSOCDRI2SwapComplete e cmd w6)
                else Some (False, Some cmd, w6)
              } else do {
                let cmd = (if ret = 0 then cmd\<lparr>flags := flags cmd OR ARMSOC_SWAP_FAKE_FLIP\<rparr>
                           else cmd);
                let cmd = cmd\<lparr>swapCount := (if use_page_flip_events w6 then ret else 0)\<rparr>;
                if swapCount cmd = 0
                then map_option (\<lambda>(c, w'). (True, c, w')) (ARMSOCDRI2SwapComplete e cmd w6)
                else Some (True, Some cmd, w6)
              }
            } else do {
              w6 \<leftarrow> ARMSOCDRI2CopyRegion e pDraw pDst pSrc w5;
              let cmd = cmd\<lparr>swap_type := DRI2_BLIT_COMPLETE\<rparr>;
              map_option (\<lambda>(c, w'). (True, c, w')) (ARMSOCDRI2SwapComplete e cmd w6)
            }
          })"

text \<open>
  The display layer hands every flip-completion event of a command to
  \<^verbatim>\<open>ARMSOCDRI2SwapComplete\<close>.  \<open>flip_events e n cmd w\<close> delivers up to \<open>n\<close> events, and stops
  when the command has been freed.
\<close>

fun flip_events ::
  "env \<Rightarrow> nat \<Rightarrow> ARMSOCDRISwapCmd \<Rightarrow> world \<Rightarrow> (ARMSOCDRISwapCmd option \<times> world) option" where
  "flip_events e 0 cmd w = Some (Some cmd, w)"
| "flip_events e (Suc n) cmd w =
     (case ARMSOCDRI2SwapComplete e cmd w of
        None \<Rightarrow> None
      | Some (None, w1) \<Rightarrow> Some (None, w1)
      | Some (Some cmd1, w1) \<Rightarrow> flip_events e n cmd1 w1)"

section \<open>Vocabulary of the properties\<close>

definition static :: "world \<Rightarrow> (nat \<rightharpoonup> drawable) \<times> bool \<times> u32 \<times> bool" where
  "static w = (drawables w, NoFlip w, driNumBufs w, use_page_flip_events w)"

definition frame :: "kind set \<Rightarrow> world \<Rightarrow> world \<Rightarrow> bool" where
  "frame K w w' \<longleftrightarrow>
     static w' = static w \<and> pending_flips w' = pending_flips w \<and> scanout w' = scanout w \<and>
     next_buf w' = next_buf w \<and> (\<forall>k. k \<notin> K \<longrightarrow> events k w' = events k w)"

definition ring_step :: "ARMSOCDRI2BufferRec \<Rightarrow> ARMSOCDRI2BufferRec \<Rightarrow> bool" where
  "ring_step buf buf' \<longleftrightarrow>
     refcnt buf' = refcnt buf \<and> attachment buf' = attachment buf \<and>
     attempted_fb_alloc buf' = attempted_fb_alloc buf \<and>
     length (pPixmaps buf') = length (pPixmaps buf) \<and>
     numPixmaps buf' \<le> numPixmaps buf \<and> currentPixmap buf' < numPixmaps buf'"

definition buf_evolves :: "ARMSOCDRI2BufferRec \<Rightarrow> ARMSOCDRI2BufferRec \<Rightarrow> bool" where
  "buf_evolves buf buf' \<longleftrightarrow>
     refcnt buf' = refcnt buf \<and> attachment buf' = attachment buf \<and>
     attempted_fb_alloc buf' = attempted_fb_alloc buf \<and>
     length (pPixmaps buf') = length (pPixmaps buf) \<and>
     numPixmaps buf' \<le> numPixmaps buf \<and>
     (currentPixmap buf < numPixmaps buf \<longrightarrow> currentPixmap buf' < numPixmaps buf')"

definition bufs_evolve :: "world \<Rightarrow> world \<Rightarrow> bool" where
  "bufs_evolve w w' \<longleftrightarrow> (\<forall>b. rel_option buf_evolves (bufs w b) (bufs w' b))"

definition real_flip :: "ARMSOCDRISwapCmd \<Rightarrow> bool" where
  "real_flip cmd \<longleftrightarrow> swap_type cmd \<noteq> DRI2_BLIT_COMPLETE \<and> flags cmd AND ARMSOC_SWAP_FAKE_FLIP = 0"

definition notify_of :: "ARMSOCDRISwapCmd \<Rightarrow> event" where
  "notify_of cmd = EvDRI2SwapComplete (client cmd) (draw_id cmd) (swap_type cmd) (func cmd) (data cmd)"

definition take_ref :: "nat \<Rightarrow> (nat \<rightharpoonup> ARMSOCDRI2BufferRec) \<Rightarrow> (nat \<rightharpoonup> ARMSOCDRI2BufferRec)" where
  "take_ref b m = (case m b of None \<Rightarrow> m | Some buf \<Rightarrow> m(b \<mapsto> buf\<lparr>refcnt := refcnt buf + 1\<rparr>))"

definition drop_ref :: "nat \<Rightarrow> (nat \<rightharpoonup> ARMSOCDRI2BufferRec) \<Rightarrow> (nat \<rightharpoonup> ARMSOCDRI2BufferRec)" where
  "drop_ref b m =
     (case m b of
        None \<Rightarrow> m
      | Some buf \<Rightarrow> m(b := if 1 < refcnt buf then Some (buf\<lparr>refcnt := refcnt buf - 1\<rparr>) else None))"

definition bo_take_ref :: "nat \<Rightarrow> (nat \<rightharpoonup> armsoc_bo) \<Rightarrow> (nat \<rightharpoonup> armsoc_bo)" where
  "bo_take_ref b m = (case m b of None \<Rightarrow> m | Some bo \<Rightarrow> m(b \<mapsto> bo\<lparr>bo_refcnt := bo_refcnt bo + 1\<rparr>))"

definition bo_drop_ref :: "nat \<Rightarrow> (nat \<rightharpoonup> armsoc_bo) \<Rightarrow> (nat \<rightharpoonup> armsoc_bo)" where
  "bo_drop_ref b m = (case m b of None \<Rightarrow> m | Some bo \<Rightarrow> m(b \<mapsto> bo\<lparr>bo_refcnt := bo_refcnt bo - 1\<rparr>))"

definition flip_kinds :: "kind set" where
  "flip_kinds = {KExchange, KCreate, KDestroy, KRegister, KDeregister, KAddFb}"

text \<open>
  The command as \<^verbatim>\<open>ARMSOCDRI2ScheduleSwap\<close> leaves it: \<open>flip\<close> is the value of
  \<open>do_flip\<close> and \<open>evs\<close> says whether page-flip events are in use.
\<close>

definition scheduled_cmd ::
  "env \<Rightarrow> bool \<Rightarrow> bool \<Rightarrow> nat \<Rightarrow> nat \<Rightarrow> nat \<Rightarrow> nat \<Rightarrow> nat \<Rightarrow> nat \<Rightarrow> ARMSOCDRISwapCmd" where
  "scheduled_cmd e evs flip cl pDraw pDst pSrc fn dt =
     \<lparr>swap_type = (if flip then DRI2_FLIP_COMPLETE else DRI2_BLIT_COMPLETE),
      client = cl, draw_id = pDraw, pDstBuffer = pDst, pSrcBuffer = pSrc, func = fn,
      swapCount = (if flip \<and> evs
                   then (if page_flip_ret e < 0 then - (page_flip_ret e + 1) else page_flip_ret e)
                   else 0),
      flags = (if flip then (if page_flip_ret e < 0 then ARMSOC_SWAP_FAIL
                             else if page_flip_ret e = 0 then ARMSOC_SWAP_FAKE_FLIP else 0)
               else 0),
      data = dt\<rparr>"

text \<open>The world after \<open>swap_take_refs\<close>.\<close>

definition refs_taken :: "nat \<Rightarrow> nat \<Rightarrow> nat \<Rightarrow> nat \<Rightarrow> world \<Rightarrow> world" where
  "refs_taken pDst pSrc s t w =
     w\<lparr>bufs := take_ref pDst (take_ref pSrc (bufs w)),
       pending_flips := pending_flips w + 1,
       bos := bo_take_ref t (bo_take_ref s (bos w))\<rparr>"

subsection \<open>A small world for the examples\<close>

text \<open>
  A window \<open>7\<close> of 640 by 480 with a front buffer \<open>0\<close> and a back buffer \<open>1\<close> in a
  chain of four buffers (three back slots, the first one allocated); both current
  surfaces have a framebuffer.
\<close>

definition win0 :: drawable where
  "win0 = \<lparr>draw_type = DRAWABLE_WINDOW, draw_width = 640, draw_height = 480, draw_depth = 24,
           draw_pixmap = 0, dri2_can_flip = True\<rparr>"

definition bo_front :: armsoc_bo where
  "bo_front = \<lparr>bo_name = 100, fb_id = 10, bo_width = 640, bo_height = 480, bo_refcnt = 1\<rparr>"

definition bo_back :: armsoc_bo where
  "bo_back = \<lparr>bo_name = 101, fb_id = 11, bo_width = 640, bo_height = 480, bo_refcnt = 1\<rparr>"

definition bo_new :: armsoc_bo where
  "bo_new = \<lparr>bo_name = 102, fb_id = 0, bo_width = 640, bo_height = 480, bo_refcnt = 1\<rparr>"

definition buf_front :: ARMSOCDRI2BufferRec where
  "buf_front = \<lparr>attachment = DRI2BufferFrontLeft, name = 100, pitch = 2560, cpp = 4,
                 format = 0, buf_flags = 0, pPixmaps = [Some 0], currentPixmap = 0,
                 numPixmaps = 1, refcnt = 1, attempted_fb_alloc = False\<rparr>"

definition buf_back :: ARMSOCDRI2BufferRec where
  "buf_back = \<lparr>attachment = DRI2BufferBackLeft, name = 101, pitch = 2560, cpp = 4,
                format = 0, buf_flags = 0, pPixmaps = [Some 1, None, None], currentPixmap = 0,
                numPixmaps = 3, refcnt = 1, attempted_fb_alloc = True\<rparr>"

definition world0 :: world where
  "world0 =
     \<lparr>bufs = [0 \<mapsto> buf_front, 1 \<mapsto> buf_back],
      pixmaps = [0 \<mapsto> \<lparr>pix_bo = Some 0, pix_refcnt = 2, devKind = 2560, bitsPerPixel = 32\<rparr>,
                 1 \<mapsto> \<lparr>pix_bo = Some 1, pix_refcnt = 1, devKind = 2560, bitsPerPixel = 32\<rparr>],
      bos = [0 \<mapsto> bo_front, 1 \<mapsto> bo_back],
      drawables = [7 \<mapsto> win0],
      NoFlip = False, driNumBufs = 4, use_page_flip_events = True, pending_flips = 0,
      scanout = Some 0, next_buf = 2, next_pix = 2, next_bo = 2, trace = []\<rparr>"

definition env0 :: env where
  "env0 = \<lparr>calloc_ok = True, ring_ok = True, new_pixmap = Some (Some bo_new),
           new_devKind = 2560, new_bitsPerPixel = 32, add_fb_id = 12, page_flip_ret = 1,
           scratch_gc_ok = True\<rparr>"

text \<open>
  After \<^verbatim>\<open>ARMSOCDRI2ScheduleSwap\<close> has returned, the display layer delivers the flip
  events the command still waits for, one call of \<^verbatim>\<open>ARMSOCDRI2SwapComplete\<close> each.
\<close>

definition await_flip_events ::
  "env \<Rightarrow> ARMSOCDRISwapCmd option \<Rightarrow> world \<Rightarrow> (ARMSOCDRISwapCmd option \<times> world) option" where
  "await_flip_events e c w =
     (case c of None \<Rightarrow> Some (None, w) | Some cmd \<Rightarrow> flip_events e (nat (swapCount cmd)) cmd w)"




text \<open>The buffer behind a key, with the world as the last argument.\<close>

definition buffer_of :: "nat \<Rightarrow> world \<Rightarrow> ARMSOCDRI2BufferRec option" where
  "buffer_of b w = bufs w b"

text \<open>
  A flip of the example window in flight: both buffers hold the extra reference, one
  flip event is awaited, and the window has been destroyed in the meantime.
\<close>

definition cmd0 :: ARMSOCDRISwapCmd where
  "cmd0 = \<lparr>swap_type = DRI2_FLIP_COMPLETE, client = 1, draw_id = 7, pDstBuffer = 0,
           pSrcBuffer = 1, func = 5, swapCount = 1, flags = 0, data = 9\<rparr>"

definition world_gone :: world where
  "world_gone =
     world0\<lparr>bufs := [0 \<mapsto> buf_front\<lparr>refcnt := 2\<rparr>, 1 \<mapsto> buf_back\<lparr>refcnt := 2\<rparr>],
            bos := [0 \<mapsto> bo_front\<lparr>bo_refcnt := 2\<rparr>, 1 \<mapsto> bo_back\<lparr>bo_refcnt := 2\<rparr>],
            drawables := Map.empty, pending_flips := 1, scanout := None\<rparr>"

text \<open>
  The example world before the window was mapped: the back buffer has no framebuffer
  and no attachment has been attempted.
\<close>

definition world_unmapped :: world where
  "world_unmapped =
     world0\<lparr>bufs := [0 \<mapsto> buf_front, 1 \<mapsto> buf_back\<lparr>attempted_fb_alloc := False\<rparr>],
            bos := [0 \<mapsto> bo_front, 1 \<mapsto> bo_back\<lparr>fb_id := 0\<rparr>]\<rparr>"

text \<open>
  The example world after the window stopped being flippable (it was unmapped or
  redirected) while its back buffer still has its framebuffer.
\<close>

definition world_hidden :: world where
  "world_hidden = world0\<lparr>drawables := [7 \<mapsto> win0\<lparr>dri2_can_flip := False\<rparr>]\<rparr>"

text \<open>
  \<open>n\<close> calls of \<^verbatim>\<open>nextBuffer\<close> in a row on the same back buffer.
\<close>

fun nextBuffer_times :: "env \<Rightarrow> nat \<Rightarrow> nat \<Rightarrow> nat \<Rightarrow> world \<Rightarrow> world option" where
  "nextBuffer_times e pDraw b 0 w = Some w"
| "nextBuffer_times e pDraw b (Suc n) w = nextBuffer e pDraw b w \<bind> nextBuffer_times e pDraw b n"

text \<open>
  A slot of the ring is allocated when it holds a pixmap that has a buffer object.  The ring
  of a buffer is full when \<open>currentPixmap\<close> is in range and each of its \<open>numPixmaps\<close> slots
  is allocated.
\<close>

definition slot_allocated :: "world \<Rightarrow> nat option \<Rightarrow> bool" where
  "slot_allocated w s =
     (case s of
        None \<Rightarrow> False
      | Some p \<Rightarrow>
          (case pixmaps w p of
             None \<Rightarrow> False
           | Some px \<Rightarrow> (case pix_bo px of None \<Rightarrow> False | Some bo \<Rightarrow> bos w bo \<noteq> None)))"

definition ring_full :: "world \<Rightarrow> nat \<Rightarrow> bool" where
  "ring_full w b =
     (case bufs w b of
        None \<Rightarrow> False
      | Some buf \<Rightarrow>
          currentPixmap buf < numPixmaps buf \<and> unat (numPixmaps buf) \<le> length (pPixmaps buf) \<and>
          list_all (slot_allocated w) (take (unat (numPixmaps buf)) (pPixmaps buf)))"

text \<open>
  The example world with the ring of the back buffer fully allocated: three slots, three
  pixmaps, three buffer objects.
\<close>

definition world_ring :: world where
  "world_ring =
     world0\<lparr>bufs := [0 \<mapsto> buf_front, 1 \<mapsto> buf_back\<lparr>pPixmaps := [Some 1, Some 2, Some 3]\<rparr>],
            pixmaps := [0 \<mapsto> \<lparr>pix_bo = Some 0, pix_refcnt = 2, devKind = 2560, bitsPerPixel = 32\<rparr>,
                        1 \<mapsto> \<lparr>pix_bo = Some 1, pix_refcnt = 1, devKind = 2560, bitsPerPixel = 32\<rparr>,
                        2 \<mapsto> \<lparr>pix_bo = Some 2, pix_refcnt = 1, devKind = 2560, bitsPerPixel = 32\<rparr>,
                        3 \<mapsto> \<lparr>pix_bo = Some 3, pix_refcnt = 1, devKind = 2560, bitsPerPixel = 32\<rparr>],
            bos := [0 \<mapsto> bo_front, 1 \<mapsto> bo_back, 2 \<mapsto> bo_new, 3 \<mapsto> bo_new\<lparr>bo_name := 103\<rparr>],
            next_pix := 4, next_bo := 4\<rparr>"

section \<open>Frame lemmas\<close>

lemma frame_refl [simp]: "frame K w w"
  by (simp add: frame_def)

lemma frame_trans: "frame K w w1 \<Longrightarrow> frame K' w1 w2 \<Longrightarrow> K \<subseteq> L \<Longrightarrow> K' \<subseteq> L \<Longrightarrow> frame L w w2"
  unfolding frame_def by (metis subsetD)

lemma frame_trans': "frame K w w1 \<Longrightarrow> frame K w1 w2 \<Longrightarrow> frame K w w2"
  by (simp add: frame_def)

lemma frame_emit_left [simp]: "kind_of e \<in> K \<Longrightarrow> frame K (emit e w) w' = frame K w w'"
  by (auto simp: frame_def static_def events_def emit_def)

lemma frame_mono: "frame K w w' \<Longrightarrow> K \<subseteq> L \<Longrightarrow> frame L w w'"
  unfolding frame_def by (metis subsetD)

lemma frame_emit: "kind_of e \<in> K \<Longrightarrow> frame K w (emit e w)"
  by (auto simp: frame_def static_def events_def emit_def)

lemma frame_emit_iff [simp]: "kind_of e \<in> K \<Longrightarrow> frame K w (emit e w') = frame K w w'"
  by (auto simp: frame_def static_def events_def emit_def)

lemma frame_upd [simp]:
  "frame K w (w'\<lparr>bufs := x1\<rparr>) = frame K w w'"
  "frame K w (w'\<lparr>pixmaps := x2\<rparr>) = frame K w w'"
  "frame K w (w'\<lparr>bos := x3\<rparr>) = frame K w w'"
  "frame K w (w'\<lparr>next_pix := x7\<rparr>) = frame K w w'"
  "frame K w (w'\<lparr>next_bo := x8\<rparr>) = frame K w w'"
  by (simp_all add: frame_def static_def events_def)

lemma emit_fields [simp]:
  "bufs (emit e w) = bufs w" "pixmaps (emit e w) = pixmaps w" "bos (emit e w) = bos w"
  "drawables (emit e w) = drawables w" "NoFlip (emit e w) = NoFlip w"
  "driNumBufs (emit e w) = driNumBufs w" "use_page_flip_events (emit e w) = use_page_flip_events w"
  "pending_flips (emit e w) = pending_flips w" "scanout (emit e w) = scanout w"
  "next_buf (emit e w) = next_buf w" "next_pix (emit e w) = next_pix w" "next_bo (emit e w) = next_bo w"
  by (simp_all add: emit_def)

lemma events_emit [simp]:
  "events k (emit e w) = (if kind_of e = k then e # events k w else events k w)"
  by (simp add: events_def emit_def)

lemma events_upd [simp]:
  "events k (w\<lparr>bufs := x1\<rparr>) = events k w"
  "events k (w\<lparr>pixmaps := x2\<rparr>) = events k w"
  "events k (w\<lparr>bos := x3\<rparr>) = events k w"
  "events k (w\<lparr>pending_flips := x4\<rparr>) = events k w"
  "events k (w\<lparr>scanout := x5\<rparr>) = events k w"
  "events k (w\<lparr>next_buf := x6\<rparr>) = events k w"
  "events k (w\<lparr>next_pix := x7\<rparr>) = events k w"
  "events k (w\<lparr>next_bo := x8\<rparr>) = events k w"
  by (simp_all add: events_def)

lemma DestroyPixmap_frame:
  "DestroyPixmap p w = Some w' \<Longrightarrow> frame {KDestroy} w w' \<and> bufs w' = bufs w \<and> bos w' = bos w"
  by (auto simp: DestroyPixmap_def split: option.splits if_splits)

lemma destroy_pixmaps_frame:
  "destroy_pixmaps pp i n w = Some w' \<Longrightarrow>
     frame {KDestroy, KDeregister} w w' \<and> bufs w' = bufs w \<and> bos w' = bos w"
proof (induction pp i n w rule: destroy_pixmaps.induct)
  case (1 pp i w)
  then show ?case by simp
next
  case (2 pp i k w)
  show ?case
  proof (cases "i < length pp")
    case False
    with 2 show ?thesis by simp
  next
    case True
    show ?thesis
    proof (cases "pp ! i")
      case None
      with True 2 show ?thesis by simp
    next
      case (Some p)
      with True 2 obtain w1 where
        w1: "DestroyPixmap p (emit (EvDeregisterExternalAccess p) w) = Some w1"
        and rest: "destroy_pixmaps pp (Suc i) k w1 = Some w'"
        by (auto split: option.splits)
      from DestroyPixmap_frame [OF w1]
      have f1: "frame {KDestroy, KDeregister} w w1" "bufs w1 = bufs w" "bos w1 = bos w"
        by (auto simp: frame_def static_def)
      from "2.IH" [OF True Some w1 rest] f1 show ?thesis
        by (auto intro: frame_trans)
    qed
  qed
qed

lemma DestroyBuffer_spec:
  assumes "ARMSOCDRI2DestroyBuffer b w = Some w'"
  shows "\<exists>buf. bufs w b = Some buf \<and>
           bufs w' = (bufs w)(b := if 1 < refcnt buf then Some (buf\<lparr>refcnt := refcnt buf - 1\<rparr>) else None)
           \<and> frame {KDestroy, KDeregister} w w' \<and> bos w' = bos w
           \<and> (1 < refcnt buf \<longrightarrow> w' = w\<lparr>bufs := (bufs w)(b \<mapsto> buf\<lparr>refcnt := refcnt buf - 1\<rparr>)\<rparr>)"
proof -
  from assms obtain buf where buf: "bufs w b = Some buf"
    by (auto simp: ARMSOCDRI2DestroyBuffer_def split: option.splits)
  show ?thesis
  proof (cases "1 < refcnt buf")
    case True
    with assms buf have "w' = w\<lparr>bufs := (bufs w)(b \<mapsto> buf\<lparr>refcnt := refcnt buf - 1\<rparr>)\<rparr>"
      by (auto simp: ARMSOCDRI2DestroyBuffer_def split: option.splits if_splits)
    with buf True show ?thesis by simp
  next
    case False
    with assms buf obtain n w1 where d: "destroy_pixmaps (pPixmaps buf) 0 n w = Some w1"
      and w': "w' = w1\<lparr>bufs := (bufs w1)(b := None)\<rparr>"
      by (auto simp: ARMSOCDRI2DestroyBuffer_def Let_def bind_eq_Some_conv
               simp del: destroy_pixmaps.simps split: option.splits if_splits)
    from destroy_pixmaps_frame [OF d] w' buf False show ?thesis by simp
  qed
qed

lemma ReferenceBuffer_spec:
  "ARMSOCDRI2ReferenceBuffer b w = Some w' \<Longrightarrow>
     \<exists>buf. bufs w b = Some buf \<and> w' = w\<lparr>bufs := (bufs w)(b \<mapsto> buf\<lparr>refcnt := refcnt buf + 1\<rparr>)\<rparr>"
  by (auto simp: ARMSOCDRI2ReferenceBuffer_def split: option.splits)

lemma bo_reference_spec:
  "armsoc_bo_reference bo w = Some w' \<Longrightarrow>
     \<exists>b. bos w bo = Some b \<and> w' = w\<lparr>bos := (bos w)(bo \<mapsto> b\<lparr>bo_refcnt := bo_refcnt b + 1\<rparr>)\<rparr>"
  by (auto simp: armsoc_bo_reference_def split: option.splits)

lemma bo_unreference_spec:
  "armsoc_bo_unreference bo w = Some w' \<Longrightarrow>
     \<exists>b. bos w bo = Some b \<and> w' = w\<lparr>bos := (bos w)(bo \<mapsto> b\<lparr>bo_refcnt := bo_refcnt b - 1\<rparr>)\<rparr>"
  by (auto simp: armsoc_bo_unreference_def split: option.splits)

lemma add_fb_frame:
  "armsoc_bo_add_fb e bo w = Some (r, w') \<Longrightarrow>
     frame {KAddFb} w w' \<and> bufs w' = bufs w \<and> pixmaps w' = pixmaps w \<and>
     events KAddFb w' = EvAddFb bo # events KAddFb w"
  by (auto simp: armsoc_bo_add_fb_def split: option.splits if_splits)

lemma rm_fb_frame:
  "armsoc_bo_rm_fb bo w = Some w' \<Longrightarrow>
     frame {KRmFb} w w' \<and> bufs w' = bufs w \<and> pixmaps w' = pixmaps w"
  by (auto simp: armsoc_bo_rm_fb_def split: option.splits if_splits)

lemma createpix_frame:
  "createpix e d w = (r, w') \<Longrightarrow> frame {KCreate} w w' \<and> bufs w' = bufs w"
  by (auto simp: createpix_def Let_def split: option.splits)

lemma allocNextBuffer_frame:
  assumes "allocNextBuffer e d w = Some (r, w')"
  shows "frame {KCreate, KDestroy, KRegister, KDeregister, KAddFb} w w' \<and> bufs w' = bufs w"
proof -
  let ?K = "{KCreate, KDestroy, KRegister, KDeregister, KAddFb}"
  obtain r1 w1 where c: "createpix e d w = (r1, w1)" by (cases "createpix e d w")
  from createpix_frame [OF c]
  have f1: "frame ?K w w1" "bufs w1 = bufs w"
    by (auto intro: frame_mono)
  have "frame ?K w1 w' \<and> bufs w' = bufs w1"
  proof (cases r1)
    case None
    with assms c show ?thesis by (simp add: allocNextBuffer_def)
  next
    case (Some p)
    note p = this
    show ?thesis
    proof (cases "ARMSOCPixmapBo w1 p")
      case None
      with assms c p show ?thesis by (simp add: allocNextBuffer_def)
    next
      case (Some obo)
      note obo = this
      show ?thesis
      proof (cases obo)
        case None
        with assms c p obo obtain "DestroyPixmap p w1 = Some w'"
          by (auto simp: allocNextBuffer_def)
        from DestroyPixmap_frame [OF this] show ?thesis by (auto intro: frame_mono)
      next
        case (Some bo)
        let ?w2 = "emit (EvRegisterExternalAccess p) w1"
        have f2: "frame ?K w1 ?w2" by (simp add: frame_emit)
        from assms c p obo Some
        have "w' = ?w2 \<or> (\<exists>ret w3. armsoc_bo_add_fb e bo ?w2 = Some (ret, w3) \<and>
                 (w' = w3 \<or> DestroyPixmap p (emit (EvDeregisterExternalAccess p) w3) = Some w'))"
          by (auto simp: allocNextBuffer_def Let_def bind_eq_Some_conv split: if_splits)
        then show ?thesis
        proof (elim disjE exE conjE)
          assume "w' = ?w2"
          with f2 show ?thesis by simp
        next
          fix ret w3
          assume a: "armsoc_bo_add_fb e bo ?w2 = Some (ret, w3)" and "w' = w3"
          from add_fb_frame [OF a] have "frame ?K ?w2 w3" "bufs w3 = bufs w1"
            by (auto dest: frame_mono [where L = ?K])
          with \<open>w' = w3\<close> show ?thesis by simp
        next
          fix ret w3
          assume a: "armsoc_bo_add_fb e bo ?w2 = Some (ret, w3)"
            and d: "DestroyPixmap p (emit (EvDeregisterExternalAccess p) w3) = Some w'"
          from add_fb_frame [OF a] have f3: "frame ?K ?w2 w3" "bufs w3 = bufs w1"
            by (auto dest: frame_mono [where L = ?K])
          from DestroyPixmap_frame [OF d]
          have f4: "frame ?K w3 w'" "bufs w' = bufs w3"
            by (auto dest: frame_mono [where L = ?K])
          from f3 f4 show ?thesis by (auto intro: frame_trans')
        qed
      qed
    qed
  qed
  with f1 show ?thesis by (auto intro: frame_trans')
qed

lemma CopyRegion_frame:
  "ARMSOCDRI2CopyRegion e pDraw pDst pSrc w = Some w' \<Longrightarrow>
     frame {KCopy} w w' \<and> bufs w' = bufs w \<and> pixmaps w' = pixmaps w \<and> bos w' = bos w"
  by (auto simp: ARMSOCDRI2CopyRegion_def bind_eq_Some_conv split: if_splits)

lemma ARMSOCPixmapExchange_frame:
  "ARMSOCPixmapExchange a b w = Some w' \<Longrightarrow>
     frame {KExchange} w w' \<and> bufs w' = bufs w \<and> bos w' = bos w \<and>
     events KExchange w' = EvPixmapExchange a b # events KExchange w"
  by (auto simp: ARMSOCPixmapExchange_def split: option.splits)

lemma exchangebufs_spec:
  "exchangebufs pDraw a b w = Some w' \<Longrightarrow>
     \<exists>bufa bufb aPix bPix. bufs w a = Some bufa \<and> bufs w b = Some bufb \<and>
        bufs w' = (bufs w)(a \<mapsto> bufa\<lparr>name := name bufb\<rparr>, b \<mapsto> bufb\<lparr>name := name bufa\<rparr>) \<and>
        frame {KExchange} w w' \<and> bos w' = bos w \<and>
        events KExchange w' = EvPixmapExchange aPix bPix # events KExchange w"
  by (auto simp: exchangebufs_def bind_eq_Some_conv dest!: ARMSOCPixmapExchange_frame)

lemma word_pred_less:
  assumes "(0::u32) < c"
  shows "c - 1 < c"
proof -
  from assms have "c \<noteq> 0" by auto
  then have "unat (c - 1) < unat c" by (rule measure_unat)
  then show ?thesis by (simp add: word_less_nat_alt)
qed

lemma nextBuffer_spec:
  assumes "nextBuffer e pDraw b w = Some w'"
  shows "frame {KCreate, KDestroy, KRegister, KDeregister, KAddFb} w w' \<and>
         (bufs w' = bufs w \<or>
          (\<exists>buf buf'. bufs w b = Some buf \<and> bufs w' = (bufs w)(b \<mapsto> buf') \<and> ring_step buf buf'))"
proof -
  let ?K = "{KCreate, KDestroy, KRegister, KDeregister, KAddFb}"
  from assms obtain d where d: "drawables w pDraw = Some d"
    by (auto simp: nextBuffer_def split: option.splits)
  show ?thesis
  proof (cases "driNumBufs w \<le> 2")
    case True
    with assms d show ?thesis by (simp add: nextBuffer_def)
  next
    case False
    with assms d obtain buf where buf: "bufs w b = Some buf" and nz: "numPixmaps buf \<noteq> 0"
      by (auto simp: nextBuffer_def split: option.splits if_splits)
    define cur where "cur = (currentPixmap buf + 1) mod numPixmaps buf"
    have lt: "cur < numPixmaps buf"
      unfolding cur_def using nz by (simp add: word_mod_less_divisor word_gt_0)
    from assms d False buf nz obtain slot where slot: "pixmap_at (buf\<lparr>currentPixmap := cur\<rparr>) (unat cur) = Some slot"
      by (auto simp: nextBuffer_def Let_def cur_def split: option.splits)
    show ?thesis
    proof (cases slot)
      case (Some p)
      with assms d False buf nz slot
      have "\<exists>nm. w' = w\<lparr>bufs := (bufs w)(b \<mapsto> buf\<lparr>currentPixmap := cur, name := nm\<rparr>)\<rparr>"
        by (auto simp: nextBuffer_def Let_def cur_def split: option.splits)
      with buf lt show ?thesis by (auto simp: ring_step_def)
    next
      case None
      with assms d False buf nz slot obtain r w1 where a: "allocNextBuffer e d w = Some (r, w1)"
        by (auto simp: nextBuffer_def Let_def cur_def split: option.splits)
      note fr = allocNextBuffer_frame [OF a]
      show ?thesis
      proof (cases r)
        case (Some pn)
        with assms d False buf nz slot None a
        have "w' = w1\<lparr>bufs := (bufs w1)(b \<mapsto> buf\<lparr>currentPixmap := cur,
                  pPixmaps := (pPixmaps buf)[unat cur := Some (fst pn)], name := snd pn\<rparr>)\<rparr>"
          by (cases pn) (auto simp: nextBuffer_def Let_def cur_def split: option.splits)
        with fr buf lt show ?thesis by (auto simp: ring_step_def)
      next
        case None' : None
        with assms d False buf nz slot None a
        have pos: "0 < cur" and 
          w': "w' = w1\<lparr>bufs := (bufs w1)(b \<mapsto> buf\<lparr>currentPixmap := cur - 1,
                  numPixmaps := cur - 1 + 1\<rparr>)\<rparr>"
          by (auto simp: nextBuffer_def Let_def cur_def split: option.splits if_splits)
        with fr buf lt show ?thesis by (auto simp: ring_step_def word_pred_less)
      qed
    qed
  qed
qed

lemma buf_evolves_refl [simp]: "buf_evolves b b"
  by (simp add: buf_evolves_def)

lemma buf_evolves_name [simp]: "buf_evolves b (b\<lparr>name := n\<rparr>)"
  by (simp add: buf_evolves_def)

lemma buf_evolves_trans: "buf_evolves a b \<Longrightarrow> buf_evolves b c \<Longrightarrow> buf_evolves a c"
  by (auto simp: buf_evolves_def)

lemma ring_step_evolves: "ring_step a b \<Longrightarrow> buf_evolves a b"
  by (simp add: ring_step_def buf_evolves_def)

lemma bufs_evolve_refl [simp]: "bufs_evolve w w"
  by (simp add: bufs_evolve_def option.rel_refl)

lemma bufs_evolve_eq: "bufs w' = bufs w \<Longrightarrow> bufs_evolve w w'"
  by (simp add: bufs_evolve_def option.rel_refl)

lemma bufs_evolve_trans: "bufs_evolve w w1 \<Longrightarrow> bufs_evolve w1 w2 \<Longrightarrow> bufs_evolve w w2"
  unfolding bufs_evolve_def
proof (intro allI)
  fix b
  assume a: "\<forall>b. rel_option buf_evolves (bufs w b) (bufs w1 b)"
    and b: "\<forall>b. rel_option buf_evolves (bufs w1 b) (bufs w2 b)"
  from a b have "rel_option buf_evolves (bufs w b) (bufs w1 b)"
    "rel_option buf_evolves (bufs w1 b) (bufs w2 b)" by auto
  then show "rel_option buf_evolves (bufs w b) (bufs w2 b)"
    by (cases "bufs w b"; cases "bufs w1 b"; cases "bufs w2 b")
       (auto intro: buf_evolves_trans)
qed

lemma exchangebufs_evolve: "exchangebufs pDraw a b w = Some w' \<Longrightarrow> bufs_evolve w w'"
  by (drule exchangebufs_spec) (auto simp: bufs_evolve_def option.rel_refl)

lemma nextBuffer_evolve: "nextBuffer e pDraw b w = Some w' \<Longrightarrow> bufs_evolve w w'"
  by (drule nextBuffer_spec)
     (auto simp: bufs_evolve_def option.rel_refl dest: ring_step_evolves)

lemma boFromBuffer_emit [simp]: "boFromBuffer (emit ev w) b = boFromBuffer w b"
  by (simp add: boFromBuffer_def split: option.splits)

lemma boFromBuffer_upd [simp]:
  "boFromBuffer (w\<lparr>pending_flips := x\<rparr>) b = boFromBuffer w b"
  "boFromBuffer (w\<lparr>bos := y\<rparr>) b = boFromBuffer w b"
  "boFromBuffer (w\<lparr>scanout := z\<rparr>) b = boFromBuffer w b"
  by (simp_all add: boFromBuffer_def split: option.splits)

lemma swap_not_failed_gone:
  "drawables w (draw_id cmd) = None \<Longrightarrow> swap_not_failed e cmd w = Some w"
  by (simp add: swap_not_failed_def)

lemma swap_not_failed_plain:
  "drawables w (draw_id cmd) = Some d \<Longrightarrow> \<not> real_flip cmd \<Longrightarrow>
     swap_not_failed e cmd w = Some (emit (notify_of cmd) w)"
  by (auto simp: swap_not_failed_def real_flip_def notify_of_def)

lemma swap_not_failed_real:
  assumes "swap_not_failed e cmd w = Some w'" "drawables w (draw_id cmd) = Some d" "real_flip cmd"
  shows "\<exists>wx wa bo. swap_type cmd = DRI2_FLIP_COMPLETE \<and>
           exchangebufs (draw_id cmd) (pSrcBuffer cmd) (pDstBuffer cmd) w = Some wx \<and>
           (wa = wx \<or> nextBuffer e (draw_id cmd) (pSrcBuffer cmd) wx = Some wa) \<and>
           boFromBuffer wa (pDstBuffer cmd) = Some bo \<and>
           w' = set_scanout_bo bo (emit (notify_of cmd) wa)"
  using assms
  by (auto simp: swap_not_failed_def real_flip_def notify_of_def bind_eq_Some_conv Let_def
           split: if_splits)

lemma boFromBuffer_cong:
  assumes "pixmaps w' = pixmaps w"
    and "\<And>b. map_option (\<lambda>x. (pPixmaps x, currentPixmap x)) (bufs w' b)
             = map_option (\<lambda>x. (pPixmaps x, currentPixmap x)) (bufs w b)"
  shows "boFromBuffer w' x = boFromBuffer w x"
proof -
  from assms(2) [of x] show ?thesis
    by (cases "bufs w x"; cases "bufs w' x")
       (auto simp: boFromBuffer_def pixmap_at_def assms(1) split: option.splits)
qed

lemma take_ref_shape:
  "map_option (\<lambda>x. (pPixmaps x, currentPixmap x)) (take_ref a m b)
     = map_option (\<lambda>x. (pPixmaps x, currentPixmap x)) (m b)"
  by (auto simp: take_ref_def split: option.splits)

lemma boFromBuffer_take_ref [simp]:
  "boFromBuffer (w\<lparr>bufs := take_ref a (take_ref b (bufs w))\<rparr>) x = boFromBuffer w x"
  by (rule boFromBuffer_cong) (simp_all add: take_ref_shape)

lemma swap_take_refs_spec:
  assumes "swap_take_refs pDst pSrc w = Some (s, t, fs, ft, w5)"
  shows "boFromBuffer w pSrc = Some s \<and> boFromBuffer w pDst = Some t \<and>
         map_option fb_id (bos w s) = Some fs \<and> map_option fb_id (bos w t) = Some ft \<and>
         w5 = w\<lparr>bufs := take_ref pDst (take_ref pSrc (bufs w)),
                pending_flips := pending_flips w + 1,
                bos := bo_take_ref t (bo_take_ref s (bos w))\<rparr>"
proof -
  from assms obtain w1 w2 w4 where
    r1: "ARMSOCDRI2ReferenceBuffer pSrc w = Some w1" and
    r2: "ARMSOCDRI2ReferenceBuffer pDst w1 = Some w2" and
    s: "boFromBuffer (w2\<lparr>pending_flips := pending_flips w2 + 1\<rparr>) pSrc = Some s" and
    t: "boFromBuffer (w2\<lparr>pending_flips := pending_flips w2 + 1\<rparr>) pDst = Some t" and
    fs: "armsoc_bo_get_fb (w2\<lparr>pending_flips := pending_flips w2 + 1\<rparr>) s = Some fs" and
    ft: "armsoc_bo_get_fb (w2\<lparr>pending_flips := pending_flips w2 + 1\<rparr>) t = Some ft" and
    r4: "armsoc_bo_reference s (w2\<lparr>pending_flips := pending_flips w2 + 1\<rparr>) = Some w4" and
    r5: "armsoc_bo_reference t w4 = Some w5"
    by (auto simp: swap_take_refs_def bind_eq_Some_conv Let_def)
  from r1 have w1: "w1 = w\<lparr>bufs := take_ref pSrc (bufs w)\<rparr>"
    by (auto simp: ARMSOCDRI2ReferenceBuffer_def take_ref_def split: option.splits)
  from r2 have w2: "w2 = w1\<lparr>bufs := take_ref pDst (bufs w1)\<rparr>"
    by (auto simp: ARMSOCDRI2ReferenceBuffer_def take_ref_def split: option.splits)
  from r4 have w4: "w4 = w2\<lparr>pending_flips := pending_flips w2 + 1, bos := bo_take_ref s (bos w2)\<rparr>"
    by (auto simp: armsoc_bo_reference_def bo_take_ref_def split: option.splits)
  from r5 have w5: "w5 = w4\<lparr>bos := bo_take_ref t (bos w4)\<rparr>"
    by (auto simp: armsoc_bo_reference_def bo_take_ref_def split: option.splits)
  from s t fs ft show ?thesis
    by (simp add: w1 w2 w4 w5 armsoc_bo_get_fb_def)
qed

lemma set_scanout_simps [simp]:
  "static (set_scanout_bo bo w) = static w"
  "pending_flips (set_scanout_bo bo w) = pending_flips w"
  "next_buf (set_scanout_bo bo w) = next_buf w"
  "bufs (set_scanout_bo bo w) = bufs w"
  "bos (set_scanout_bo bo w) = bos w"
  "pixmaps (set_scanout_bo bo w) = pixmaps w"
  "drawables (set_scanout_bo bo w) = drawables w"
  "scanout (set_scanout_bo bo w) = Some bo"
  "events k (set_scanout_bo bo w) = (if k = KScanout then EvSetScanoutBo bo # events k w else events k w)"
  by (auto simp: set_scanout_bo_def static_def)

lemma static_emit [simp]: "static (emit ev w) = static w"
  by (simp add: static_def)

lemma bufs_evolve_emit [simp]:
  "bufs_evolve w (emit ev w') = bufs_evolve w w'"
  "bufs_evolve w (set_scanout_bo bo w') = bufs_evolve w w'"
  by (simp_all add: bufs_evolve_def)

lemma swap_not_failed_real_frame:
  assumes "swap_not_failed e cmd w = Some w'" "drawables w (draw_id cmd) = Some d" "real_flip cmd"
  shows "\<exists>wa bo a b. frame flip_kinds w wa \<and> bufs_evolve w wa \<and>
           events KExchange wa = EvPixmapExchange a b # events KExchange w \<and>
           boFromBuffer wa (pDstBuffer cmd) = Some bo \<and>
           w' = set_scanout_bo bo (emit (notify_of cmd) wa)"
proof -
  from swap_not_failed_real [OF assms] obtain wx wa bo where
    x: "exchangebufs (draw_id cmd) (pSrcBuffer cmd) (pDstBuffer cmd) w = Some wx" and
    a: "wa = wx \<or> nextBuffer e (draw_id cmd) (pSrcBuffer cmd) wx = Some wa" and
    bo: "boFromBuffer wa (pDstBuffer cmd) = Some bo" and
    w': "w' = set_scanout_bo bo (emit (notify_of cmd) wa)"
    by blast
  from exchangebufs_spec [OF x] obtain aP bP where
    fx: "frame {KExchange} w wx" and ex: "events KExchange wx = EvPixmapExchange aP bP # events KExchange w"
    by blast
  from fx have fx': "frame flip_kinds w wx" by (rule frame_mono) (simp add: flip_kinds_def)
  note evx = exchangebufs_evolve [OF x]
  from a show ?thesis
  proof
    assume "wa = wx"
    with fx' evx ex bo w' show ?thesis by blast
  next
    assume n: "nextBuffer e (draw_id cmd) (pSrcBuffer cmd) wx = Some wa"
    from nextBuffer_spec [OF n] have fn: "frame {KCreate, KDestroy, KRegister, KDeregister, KAddFb} wx wa"
      by simp
    then have fn': "frame flip_kinds wx wa" by (rule frame_mono) (simp add: flip_kinds_def)
    from fn have "events KExchange wa = events KExchange wx" by (simp add: frame_def)
    with ex have ex': "events KExchange wa = EvPixmapExchange aP bP # events KExchange w" by simp
    from frame_trans' [OF fx' fn'] bufs_evolve_trans [OF evx nextBuffer_evolve [OF n]] ex' bo w'
    show ?thesis by blast
  qed
qed

text \<open>What every run of the block leaves alone.\<close>

lemma swap_not_failed_frame:
  assumes "swap_not_failed e cmd w = Some w'"
  shows "static w' = static w \<and> pending_flips w' = pending_flips w \<and> next_buf w' = next_buf w \<and>
         bufs_evolve w w' \<and>
         (\<forall>k. k \<notin> insert KNotify (insert KScanout flip_kinds) \<longrightarrow> events k w' = events k w) \<and>
         events KNotify w' = (if drawables w (draw_id cmd) = None then events KNotify w
                              else notify_of cmd # events KNotify w)"
proof (cases "drawables w (draw_id cmd)")
  case None
  with assms show ?thesis by (simp add: swap_not_failed_gone)
next
  case (Some d)
  show ?thesis
  proof (cases "real_flip cmd")
    case False
    with assms Some show ?thesis by (auto simp: swap_not_failed_plain notify_of_def)
  next
    case True
    from swap_not_failed_real_frame [OF assms Some True] Some show ?thesis
      by (auto simp: frame_def flip_kinds_def notify_of_def)
  qed
qed

lemma SwapComplete_pending:
  "1 < swapCount cmd \<Longrightarrow>
     ARMSOCDRI2SwapComplete e cmd w = Some (Some (cmd\<lparr>swapCount := swapCount cmd - 1\<rparr>), w)"
  by (simp add: ARMSOCDRI2SwapComplete_def)

lemma SwapComplete_done:
  assumes "ARMSOCDRI2SwapComplete e cmd w = Some (c, w')" "swapCount cmd \<le> 1"
  shows "c = None \<and> (\<exists>s t w1 w2 w3.
           boFromBuffer w (pSrcBuffer cmd) = Some s \<and> boFromBuffer w (pDstBuffer cmd) = Some t \<and>
           (if flags cmd AND ARMSOC_SWAP_FAIL = 0 then swap_not_failed e cmd w else Some w) = Some w1 \<and>
           ARMSOCDRI2DestroyBuffer (pSrcBuffer cmd) w1 = Some w2 \<and>
           ARMSOCDRI2DestroyBuffer (pDstBuffer cmd) w2 = Some w3 \<and>
           w' = w3\<lparr>bos := bo_drop_ref t (bo_drop_ref s (bos w3)),
                   pending_flips := pending_flips w3 - 1\<rparr>)"
proof -
  from assms obtain s t w1 w2 w3 w4 w5 where
    s: "boFromBuffer w (pSrcBuffer cmd) = Some s" and t: "boFromBuffer w (pDstBuffer cmd) = Some t" and
    w1: "(if flags cmd AND ARMSOC_SWAP_FAIL = 0 then swap_not_failed e cmd w else Some w) = Some w1" and
    w2: "ARMSOCDRI2DestroyBuffer (pSrcBuffer cmd) w1 = Some w2" and
    w3: "ARMSOCDRI2DestroyBuffer (pDstBuffer cmd) w2 = Some w3" and
    w4: "armsoc_bo_unreference s w3 = Some w4" and
    w5: "armsoc_bo_unreference t w4 = Some w5" and
    w': "w' = w5\<lparr>pending_flips := pending_flips w5 - 1\<rparr>" and c: "c = None"
    by (auto simp: ARMSOCDRI2SwapComplete_def bind_eq_Some_conv split: if_splits)
  from w4 have e4: "w4 = w3\<lparr>bos := bo_drop_ref s (bos w3)\<rparr>"
    by (auto simp: armsoc_bo_unreference_def bo_drop_ref_def split: option.splits)
  from w5 have e5: "w5 = w4\<lparr>bos := bo_drop_ref t (bos w4)\<rparr>"
    by (auto simp: armsoc_bo_unreference_def bo_drop_ref_def split: option.splits)
  from s t w1 w2 w3 c show ?thesis by (simp add: w' e5 e4)
qed

lemma SwapComplete_summary:
  assumes "ARMSOCDRI2SwapComplete e cmd w = Some (c, w')" "swapCount cmd \<le> 1"
  shows "c = None \<and> static w' = static w \<and> next_buf w' = next_buf w \<and>
         pending_flips w' = pending_flips w - 1 \<and>
         (\<forall>k. k \<in> {KPageFlip, KCopy, KDeletions, KRmFb} \<longrightarrow> events k w' = events k w) \<and>
         events KNotify w' =
           (if flags cmd AND ARMSOC_SWAP_FAIL = 0 \<and> drawables w (draw_id cmd) \<noteq> None
            then notify_of cmd # events KNotify w else events KNotify w)"
proof -
  from SwapComplete_done [OF assms] obtain s t w1 w2 w3 where
    c: "c = None" and
    w1: "(if flags cmd AND ARMSOC_SWAP_FAIL = 0 then swap_not_failed e cmd w else Some w) = Some w1" and
    w2: "ARMSOCDRI2DestroyBuffer (pSrcBuffer cmd) w1 = Some w2" and
    w3: "ARMSOCDRI2DestroyBuffer (pDstBuffer cmd) w2 = Some w3" and
    w': "w' = w3\<lparr>bos := bo_drop_ref t (bo_drop_ref s (bos w3)),
                   pending_flips := pending_flips w3 - 1\<rparr>"
    by blast
  have f1: "static w1 = static w \<and> pending_flips w1 = pending_flips w \<and> next_buf w1 = next_buf w \<and>
         (\<forall>k. k \<in> {KPageFlip, KCopy, KDeletions, KRmFb} \<longrightarrow> events k w1 = events k w) \<and>
         events KNotify w1 =
           (if flags cmd AND ARMSOC_SWAP_FAIL = 0 \<and> drawables w (draw_id cmd) \<noteq> None
            then notify_of cmd # events KNotify w else events KNotify w)"
  proof (cases "flags cmd AND ARMSOC_SWAP_FAIL = 0")
    case True
    with w1 have "swap_not_failed e cmd w = Some w1" by simp
    from swap_not_failed_frame [OF this] True show ?thesis
      by (auto simp: flip_kinds_def)
  next
    case False
    with w1 show ?thesis by simp
  qed
  from DestroyBuffer_spec [OF w2] have f2: "frame {KDestroy, KDeregister} w1 w2" by blast
  from DestroyBuffer_spec [OF w3] have f3: "frame {KDestroy, KDeregister} w2 w3" by blast
  from frame_trans' [OF f2 f3] have f: "frame {KDestroy, KDeregister} w1 w3" .
  from f f1 c show ?thesis
    by (simp add: w' frame_def static_def)
qed

lemma do_flip_static: "NoFlip w' = NoFlip w \<Longrightarrow> do_flip w' = do_flip w"
  by (auto simp: do_flip_def canflip_def fun_eq_iff)

lemma bo_take_ref_Some:
  "m x = Some bo \<Longrightarrow> \<exists>n. bo_take_ref a (bo_take_ref b m) x = Some (bo\<lparr>bo_refcnt := n\<rparr>)"
  by (auto simp: bo_take_ref_def split: option.splits intro: exI [where x = "bo_refcnt bo"])

lemma do_flip_refcnt [simp]:
  "do_flip w d f1 f2 (sb\<lparr>bo_refcnt := n\<rparr>) (db\<lparr>bo_refcnt := m\<rparr>) = do_flip w d f1 f2 sb db"
  by (simp add: do_flip_def)

lemma Schedule_cases:
  assumes sch: "ARMSOCDRI2ScheduleSwap e cl pDraw pDst pSrc fn dt w = Some (r, c, w')"
    and ok: "calloc_ok e"
  shows "\<exists>d s t sb db flip cmd w6.
           drawables w pDraw = Some d \<and>
           boFromBuffer w pSrc = Some s \<and> boFromBuffer w pDst = Some t \<and>
           bos w s = Some sb \<and> bos w t = Some db \<and>
           flip = do_flip w d (fb_id sb) (fb_id db) sb db \<and>
           cmd = scheduled_cmd e (use_page_flip_events w) flip cl pDraw pDst pSrc fn dt \<and>
           r = (\<not> (flip \<and> page_flip_ret e < 0)) \<and>
           (if flip then w6 = emit (EvPageFlip pDraw (fb_id sb))
                              (emit EvPendingDeletions (refs_taken pDst pSrc s t w))
            else ARMSOCDRI2CopyRegion e pDraw pDst pSrc (refs_taken pDst pSrc s t w) = Some w6) \<and>
           (if swapCount cmd = 0 then ARMSOCDRI2SwapComplete e cmd w6 = Some (c, w')
            else c = Some cmd \<and> w' = w6)"
proof -
  from sch ok obtain d where d: "drawables w pDraw = Some d"
    by (auto simp: ARMSOCDRI2ScheduleSwap_def split: option.splits)
  from sch ok d obtain s t fs ft w5 where tr: "swap_take_refs pDst pSrc w = Some (s, t, fs, ft, w5)"
    by (cases "swap_take_refs pDst pSrc w") (auto simp: ARMSOCDRI2ScheduleSwap_def Let_def)
  from swap_take_refs_spec [OF tr] obtain sb db where
    s: "boFromBuffer w pSrc = Some s" and t: "boFromBuffer w pDst = Some t" and
    sb: "bos w s = Some sb" and db: "bos w t = Some db" and fs: "fs = fb_id sb" and ft: "ft = fb_id db" and
    w5: "w5 = refs_taken pDst pSrc s t w"
    by (auto simp: refs_taken_def)
  from bo_take_ref_Some [where m = "bos w" and x = s and bo = sb and a = t and b = s] sb obtain n where
    sb5: "bos w5 s = Some (sb\<lparr>bo_refcnt := n\<rparr>)" by (auto simp: w5 refs_taken_def)
  from bo_take_ref_Some [where m = "bos w" and x = t and bo = db and a = t and b = s] db obtain m where
    db5: "bos w5 t = Some (db\<lparr>bo_refcnt := m\<rparr>)" by (auto simp: w5 refs_taken_def)
  have nf: "do_flip w5 = do_flip w" by (rule do_flip_static) (simp add: w5 refs_taken_def)
  have ev: "use_page_flip_events w5 = use_page_flip_events w" by (simp add: w5 refs_taken_def)
  define flip where "flip = do_flip w d (fb_id sb) (fb_id db) sb db"
  show ?thesis
  proof (cases flip)
    case False
    with sch ok d tr sb5 db5 nf obtain w6 where
      cp: "ARMSOCDRI2CopyRegion e pDraw pDst pSrc w5 = Some w6" and
      sc: "ARMSOCDRI2SwapComplete e (scheduled_cmd e (use_page_flip_events w) False cl pDraw pDst pSrc fn dt) w6
             = Some (c, w')" and r: "r"
      by (auto simp: ARMSOCDRI2ScheduleSwap_def bind_eq_Some_conv fs ft flip_def scheduled_cmd_def
                     Let_def)
    from d s t sb db False cp sc r show ?thesis
      by (auto simp: flip_def [symmetric] w5 scheduled_cmd_def)
  next
    case True
    let ?w6 = "emit (EvPageFlip pDraw (fb_id sb)) (emit EvPendingDeletions w5)"
    let ?cmd = "scheduled_cmd e (use_page_flip_events w) True cl pDraw pDst pSrc fn dt"
    from sch ok d tr sb5 db5 nf True ev
    have "r = (\<not> page_flip_ret e < 0) \<and>
          (if swapCount ?cmd = 0 then ARMSOCDRI2SwapComplete e ?cmd ?w6 = Some (c, w')
           else c = Some ?cmd \<and> w' = ?w6)"
      by (auto simp: ARMSOCDRI2ScheduleSwap_def fs ft flip_def scheduled_cmd_def Let_def
               split: if_splits)
    with d s t sb db True show ?thesis
      by (auto simp: flip_def [symmetric] w5)
  qed
qed

lemma Schedule_path:
  assumes sch: "ARMSOCDRI2ScheduleSwap e cl pDraw pDst pSrc fn dt w = Some (r, c, w')"
    and ok: "calloc_ok e"
    and d: "drawables w pDraw = Some d"
    and s: "boFromBuffer w pSrc = Some s" and sb: "bos w s = Some sb"
    and t: "boFromBuffer w pDst = Some t" and db: "bos w t = Some db"
    and flip: "flip = do_flip w d (fb_id sb) (fb_id db) sb db"
    and cmd: "cmd = scheduled_cmd e (use_page_flip_events w) flip cl pDraw pDst pSrc fn dt"
  shows "r = (\<not> (flip \<and> page_flip_ret e < 0)) \<and>
         (\<exists>w6. (if flip then w6 = emit (EvPageFlip pDraw (fb_id sb))
                              (emit EvPendingDeletions (refs_taken pDst pSrc s t w))
                 else ARMSOCDRI2CopyRegion e pDraw pDst pSrc (refs_taken pDst pSrc s t w) = Some w6) \<and>
                (if swapCount cmd = 0 then ARMSOCDRI2SwapComplete e cmd w6 = Some (c, w')
                 else c = Some cmd \<and> w' = w6))"
  using Schedule_cases [OF sch ok] d s sb t db flip cmd by auto

lemma refs_taken_simps [simp]:
  "static (refs_taken pDst pSrc s t w) = static w"
  "events k (refs_taken pDst pSrc s t w) = events k w"
  "drawables (refs_taken pDst pSrc s t w) = drawables w"
  "next_buf (refs_taken pDst pSrc s t w) = next_buf w"
  "scanout (refs_taken pDst pSrc s t w) = scanout w"
  "pixmaps (refs_taken pDst pSrc s t w) = pixmaps w"
  "pending_flips (refs_taken pDst pSrc s t w) = pending_flips w + 1"
  "bufs (refs_taken pDst pSrc s t w) = take_ref pDst (take_ref pSrc (bufs w))"
  "bos (refs_taken pDst pSrc s t w) = bo_take_ref t (bo_take_ref s (bos w))"
  by (simp_all add: refs_taken_def static_def)

lemma static_drawables: "static w' = static w \<Longrightarrow> drawables w' = drawables w"
  by (simp add: static_def)

lemmas const_defs =
  DRI2BufferFrontLeft_def DRI2BufferBackLeft_def DRI2_EXCHANGE_COMPLETE_def
  DRI2_BLIT_COMPLETE_def DRI2_FLIP_COMPLETE_def ARMSOC_SWAP_FAKE_FLIP_def ARMSOC_SWAP_FAIL_def

lemmas model_defs =
  const_defs emit_def events_def armsoc_bo_get_fb_def armsoc_bo_add_fb_def armsoc_bo_rm_fb_def
  armsoc_bo_reference_def armsoc_bo_unreference_def ARMSOCPixmapBo_def DestroyPixmap_def
  ARMSOCPixmapExchange_def set_scanout_bo_def draw2pix_def pixmap_at_def dri2draw_def
  canflip_def exchangebufs_def createpix_def CreateBuffer_fail_def ARMSOCDRI2CreateBuffer_def
  ARMSOCDRI2ReuseBufferNotify_def ARMSOCDRI2DestroyBuffer_def ARMSOCDRI2ReferenceBuffer_def
  ARMSOCDRI2CopyRegion_def allocNextBuffer_def nextBuffer_def boFromBuffer_def
  swap_not_failed_def ARMSOCDRI2SwapComplete_def do_flip_def swap_take_refs_def
  ARMSOCDRI2ScheduleSwap_def Let_def

lemmas world_defs =
  world0_def env0_def win0_def bo_front_def bo_back_def bo_new_def buf_front_def buf_back_def

section \<open>The claims\<close>

text \<open>
  C10.  When \<^verbatim>\<open>calloc\<close> cannot provide the command structure,
  \<^verbatim>\<open>ARMSOCDRI2ScheduleSwap\<close> answers \<open>FALSE\<close> and the world is exactly what it was: no
  buffer and no buffer object gains a reference, the counter of pending flips keeps its
  value, and neither a flip request nor a copy appears in the trace.
\<close>

theorem schedule_swap_alloc_failure:
  assumes "drawables w pDraw = Some d" and "\<not> calloc_ok e"
  shows "ARMSOCDRI2ScheduleSwap e cl pDraw pDst pSrc fn dt w = Some (False, None, w)"
  using assms by (simp add: ARMSOCDRI2ScheduleSwap_def)

theorem schedule_swap_alloc_failure_witness:
  "drawables world0 7 = Some win0 \<and> \<not> calloc_ok (env0\<lparr>calloc_ok := False\<rparr>) \<and>
   ARMSOCDRI2ScheduleSwap (env0\<lparr>calloc_ok := False\<rparr>) 1 7 0 1 5 9 world0
     = Some (False, None, world0)"
  using schedule_swap_alloc_failure [where w = world0 and pDraw = 7 and d = win0
      and e = "env0\<lparr>calloc_ok := False\<rparr>" and cl = 1 and pDst = 0 and pSrc = 1 and fn = 5 and dt = 9]
  by (simp add: world0_def env0_def)

text \<open>
  C3.  In a call of \<^verbatim>\<open>ARMSOCDRI2ScheduleSwap\<close> that obtained its command structure,
  \<open>do_flip\<close> holds exactly when both buffer objects have a framebuffer, flipping is not
  disabled, the drawable is a window that the DRI2 core reports as able to flip, and
  the two objects agree in width and in height.  A page flip is requested exactly when
  \<open>do_flip\<close> holds; with differing widths or heights no flip is requested, the swap is
  completed within the call and the client is told \<open>DRI2_BLIT_COMPLETE\<close>.
\<close>

theorem do_flip_decides_the_path:
  assumes sch: "ARMSOCDRI2ScheduleSwap e cl pDraw pDst pSrc fn dt w = Some (r, c, w')"
    and ok: "calloc_ok e"
    and d: "drawables w pDraw = Some d"
    and s: "boFromBuffer w pSrc = Some s" and sb: "bos w s = Some sb"
    and t: "boFromBuffer w pDst = Some t" and db: "bos w t = Some db"
  shows "do_flip w d (fb_id sb) (fb_id db) sb db =
           (fb_id sb \<noteq> 0 \<and> fb_id db \<noteq> 0 \<and>
            (\<not> NoFlip w \<and> draw_type d = DRAWABLE_WINDOW \<and> dri2_can_flip d) \<and>
            bo_width sb = bo_width db \<and> bo_height sb = bo_height db) \<and>
         (events KPageFlip w' \<noteq> events KPageFlip w) = do_flip w d (fb_id sb) (fb_id db) sb db \<and>
         (bo_width sb \<noteq> bo_width db \<or> bo_height sb \<noteq> bo_height db \<longrightarrow>
            events KPageFlip w' = events KPageFlip w \<and> c = None \<and>
            events KNotify w' =
              EvDRI2SwapComplete cl pDraw DRI2_BLIT_COMPLETE fn dt # events KNotify w)"
proof -
  define flip where "flip = do_flip w d (fb_id sb) (fb_id db) sb db"
  define cmd where "cmd = scheduled_cmd e (use_page_flip_events w) flip cl pDraw pDst pSrc fn dt"
  have iff: "flip = (fb_id sb \<noteq> 0 \<and> fb_id db \<noteq> 0 \<and>
            (\<not> NoFlip w \<and> draw_type d = DRAWABLE_WINDOW \<and> dri2_can_flip d) \<and>
            bo_width sb = bo_width db \<and> bo_height sb = bo_height db)"
    by (auto simp: flip_def do_flip_def canflip_def)
  from Schedule_path [OF sch ok d s sb t db flip_def cmd_def] obtain w6 where
    w6: "if flip then w6 = emit (EvPageFlip pDraw (fb_id sb))
                              (emit EvPendingDeletions (refs_taken pDst pSrc s t w))
         else ARMSOCDRI2CopyRegion e pDraw pDst pSrc (refs_taken pDst pSrc s t w) = Some w6"
    and fin: "if swapCount cmd = 0 then ARMSOCDRI2SwapComplete e cmd w6 = Some (c, w')
              else c = Some cmd \<and> w' = w6"
    by blast
  have after: "events KPageFlip w' = events KPageFlip w6"
  proof (cases "swapCount cmd = 0")
    case True
    with fin have "ARMSOCDRI2SwapComplete e cmd w6 = Some (c, w')" by simp
    from SwapComplete_summary [OF this] True show ?thesis by simp
  next
    case False
    with fin show ?thesis by simp
  qed
  show ?thesis
  proof (cases flip)
    case True
    with w6 after iff show ?thesis by (simp add: flip_def [symmetric])
  next
    case False
    with w6 have cp: "ARMSOCDRI2CopyRegion e pDraw pDst pSrc (refs_taken pDst pSrc s t w) = Some w6"
      by simp
    from CopyRegion_frame [OF cp] have fr: "frame {KCopy} (refs_taken pDst pSrc s t w) w6" by simp
    then have e6: "events KPageFlip w6 = events KPageFlip w" "events KNotify w6 = events KNotify w"
      "drawables w6 = drawables w"
      by (auto simp: frame_def dest: static_drawables)
    from False have c0: "swapCount cmd = 0" "flags cmd = 0" "draw_id cmd = pDraw"
      "notify_of cmd = EvDRI2SwapComplete cl pDraw DRI2_BLIT_COMPLETE fn dt"
      by (simp_all add: cmd_def scheduled_cmd_def notify_of_def)
    with fin have "ARMSOCDRI2SwapComplete e cmd w6 = Some (c, w')" by simp
    from SwapComplete_summary [OF this] c0 e6 d
    have "c = None" "events KNotify w' = EvDRI2SwapComplete cl pDraw DRI2_BLIT_COMPLETE fn dt # events KNotify w"
      by simp_all
    with False after e6 iff show ?thesis by (simp add: flip_def [symmetric])
  qed
qed

theorem do_flip_decides_the_path_witness:
  "\<exists>r c w'. ARMSOCDRI2ScheduleSwap env0 1 7 0 1 5 9
       (world0\<lparr>bos := [0 \<mapsto> bo_front\<lparr>bo_width := 800\<rparr>, 1 \<mapsto> bo_back]\<rparr>) = Some (r, c, w') \<and>
     \<not> do_flip world0 win0 11 10 bo_back (bo_front\<lparr>bo_width := 800\<rparr>) \<and>
     c = None \<and> events KPageFlip w' = [] \<and>
     events KNotify w' = [EvDRI2SwapComplete 1 7 DRI2_BLIT_COMPLETE 5 9]"
proof -
  let ?w = "world0\<lparr>bos := [0 \<mapsto> bo_front\<lparr>bo_width := 800\<rparr>, 1 \<mapsto> bo_back]\<rparr>"
  have "ARMSOCDRI2ScheduleSwap env0 1 7 0 1 5 9 ?w \<noteq> None"
    by (simp add: model_defs world_defs)
  then obtain r c w' where sch: "ARMSOCDRI2ScheduleSwap env0 1 7 0 1 5 9 ?w = Some (r, c, w')"
    by (cases "ARMSOCDRI2ScheduleSwap env0 1 7 0 1 5 9 ?w") auto
  have lk: "calloc_ok env0" "drawables ?w 7 = Some win0" "boFromBuffer ?w 1 = Some 1"
    "bos ?w 1 = Some bo_back" "boFromBuffer ?w 0 = Some 0"
    "bos ?w 0 = Some (bo_front\<lparr>bo_width := 800\<rparr>)"
    by (simp_all add: world0_def env0_def boFromBuffer_def pixmap_at_def buf_back_def
          buf_front_def)
  from do_flip_decides_the_path [OF sch lk] sch
  show ?thesis
    by (simp add: bo_back_def bo_front_def world0_def events_def do_flip_def canflip_def win0_def)
qed

lemma swap_not_failed_count [simp]:
  "swap_not_failed e (cmd\<lparr>swapCount := n\<rparr>) w = swap_not_failed e cmd w"
  by (simp add: swap_not_failed_def Let_def cong: option.case_cong Option.bind_cong if_cong)

lemma SwapComplete_count:
  "swapCount cmd \<le> 1 \<Longrightarrow>
     ARMSOCDRI2SwapComplete e (cmd\<lparr>swapCount := 1\<rparr>) w = ARMSOCDRI2SwapComplete e cmd w"
  by (simp add: ARMSOCDRI2SwapComplete_def)

lemma flip_events_Suc:
  "swapCount cmd = int (Suc n) \<Longrightarrow>
     flip_events e (Suc n) cmd w = ARMSOCDRI2SwapComplete e (cmd\<lparr>swapCount := 1\<rparr>) w"
proof (induction n arbitrary: cmd)
  case 0
  then have c1: "swapCount cmd \<le> 1" by simp
  show ?case
  proof (cases "ARMSOCDRI2SwapComplete e cmd w")
    case None
    with c1 show ?thesis by (simp add: SwapComplete_count)
  next
    case (Some res)
    obtain c w' where res: "res = (c, w')" by (cases res)
    from SwapComplete_done [OF Some [unfolded res] c1] have "c = None" by simp
    with Some res c1 show ?thesis by (simp add: SwapComplete_count)
  qed
next
  case (Suc n)
  then have gt: "1 < swapCount cmd" by simp
  from Suc.prems have "swapCount (cmd\<lparr>swapCount := swapCount cmd - 1\<rparr>) = int (Suc n)" by simp
  from Suc.IH [OF this] gt show ?case
    by (simp add: SwapComplete_pending)
qed

lemma flip_events_complete:
  assumes "0 < swapCount cmd"
  shows "flip_events e (nat (swapCount cmd)) cmd w
           = ARMSOCDRI2SwapComplete e (cmd\<lparr>swapCount := 1\<rparr>) w"
proof -
  from assms obtain n where n: "nat (swapCount cmd) = Suc n"
    by (cases "nat (swapCount cmd)") auto
  with assms have "swapCount cmd = int (Suc n)" by linarith
  from flip_events_Suc [OF this] n show ?thesis by simp
qed

lemma scheduled_cmd_count: "0 \<le> swapCount (scheduled_cmd e evs flip cl pDraw pDst pSrc fn dt)"
  by (simp add: scheduled_cmd_def)

text \<open>Scheduling a swap and waiting for its flip events amounts to one completion.\<close>

lemma swap_lifecycle:
  assumes sch: "ARMSOCDRI2ScheduleSwap e cl pDraw pDst pSrc fn dt w = Some (r, c, w1)"
    and ok: "calloc_ok e"
    and d: "drawables w pDraw = Some d"
    and s: "boFromBuffer w pSrc = Some s" and sb: "bos w s = Some sb"
    and t: "boFromBuffer w pDst = Some t" and db: "bos w t = Some db"
    and flip: "flip = do_flip w d (fb_id sb) (fb_id db) sb db"
    and cmd: "cmd = scheduled_cmd e (use_page_flip_events w) flip cl pDraw pDst pSrc fn dt"
    and ev: "await_flip_events e' c w1 = Some (c', w2)"
  shows "c' = None \<and> r = (\<not> (flip \<and> page_flip_ret e < 0)) \<and>
         (c = None) = (swapCount cmd = 0) \<and> (c \<noteq> None \<longrightarrow> c = Some cmd) \<and>
         (\<exists>w6. (if flip then w6 = emit (EvPageFlip pDraw (fb_id sb))
                              (emit EvPendingDeletions (refs_taken pDst pSrc s t w))
                 else ARMSOCDRI2CopyRegion e pDraw pDst pSrc (refs_taken pDst pSrc s t w) = Some w6) \<and>
                (c \<noteq> None \<longrightarrow> w1 = w6) \<and>
                ARMSOCDRI2SwapComplete (if swapCount cmd = 0 then e else e')
                  (cmd\<lparr>swapCount := 1\<rparr>) w6 = Some (None, w2))"
proof -
  from Schedule_path [OF sch ok d s sb t db flip cmd] obtain w6 where
    r: "r = (\<not> (flip \<and> page_flip_ret e < 0))" and
    w6: "if flip then w6 = emit (EvPageFlip pDraw (fb_id sb))
                              (emit EvPendingDeletions (refs_taken pDst pSrc s t w))
         else ARMSOCDRI2CopyRegion e pDraw pDst pSrc (refs_taken pDst pSrc s t w) = Some w6"
    and fin: "if swapCount cmd = 0 then ARMSOCDRI2SwapComplete e cmd w6 = Some (c, w1)
              else c = Some cmd \<and> w1 = w6"
    by blast
  show ?thesis
  proof (cases "swapCount cmd = 0")
    case True
    with fin have sc: "ARMSOCDRI2SwapComplete e cmd w6 = Some (c, w1)" by simp
    from SwapComplete_done [OF sc] True have c: "c = None" by simp
    with ev have "c' = None" "w2 = w1" by (simp_all add: await_flip_events_def)
    with sc c True r w6 show ?thesis
      by (intro conjI exI [of _ w6]) (simp_all add: SwapComplete_count)
  next
    case False
    with fin have c: "c = Some cmd" and w1: "w1 = w6" by simp_all
    from False scheduled_cmd_count [of e "use_page_flip_events w" flip cl pDraw pDst pSrc fn dt]
    have pos: "0 < swapCount cmd" by (simp add: cmd)
    from ev c have "flip_events e' (nat (swapCount cmd)) cmd w1 = Some (c', w2)"
      by (simp add: await_flip_events_def)
    with flip_events_complete [OF pos]
    have sc: "ARMSOCDRI2SwapComplete e' (cmd\<lparr>swapCount := 1\<rparr>) w1 = Some (c', w2)" by simp
    from SwapComplete_done [OF sc] have "c' = None" by simp
    with sc c w1 False r w6 show ?thesis
      by (intro conjI exI [of _ w6]) simp_all
  qed
qed

lemma flags_simps [simp]:
  "ARMSOC_SWAP_FAIL AND ARMSOC_SWAP_FAIL \<noteq> 0"
  "ARMSOC_SWAP_FAKE_FLIP AND ARMSOC_SWAP_FAIL = 0"
  "ARMSOC_SWAP_FAKE_FLIP AND ARMSOC_SWAP_FAKE_FLIP \<noteq> 0"
  "ARMSOC_SWAP_FAIL AND ARMSOC_SWAP_FAKE_FLIP = 0"
  "DRI2_FLIP_COMPLETE \<noteq> DRI2_BLIT_COMPLETE"
  "ARMSOC_SWAP_FAIL \<noteq> 0" "ARMSOC_SWAP_FAKE_FLIP \<noteq> 0"
  by (simp_all add: const_defs)

text \<open>
  C1.  The claim fails on the failed-flip path: in the example world a flip request that
  answers \<open>-1\<close> completes the command inside the call, and the trace holds no call of
  \<^verbatim>\<open>DRI2SwapComplete\<close>.
\<close>

theorem notify_failed_flip_counterexample:
  "map_option (fst \<circ> snd) (ARMSOCDRI2ScheduleSwap (env0\<lparr>page_flip_ret := - 1\<rparr>) 1 7 0 1 5 9 world0)
     = Some None \<and>
   map_option (events KNotify \<circ> snd \<circ> snd)
     (ARMSOCDRI2ScheduleSwap (env0\<lparr>page_flip_ret := - 1\<rparr>) 1 7 0 1 5 9 world0) = Some []"
  by (simp add: model_defs world_defs)

text \<open>
  C1, amended.  A swap is scheduled and the flip events it waits for are delivered.  The
  completion then has run exactly once, and \<^verbatim>\<open>DRI2SwapComplete\<close> has been called exactly
  once with the client, drawable, kind, function and data of the command when the swap
  was a flip that the display accepted (with or without outputs) or a blit; it has not
  been called at all when the flip request failed.
\<close>

theorem notify_once_unless_failed:
  assumes sch: "ARMSOCDRI2ScheduleSwap e cl pDraw pDst pSrc fn dt w = Some (r, c, w1)"
    and ok: "calloc_ok e"
    and d: "drawables w pDraw = Some d"
    and s: "boFromBuffer w pSrc = Some s" and sb: "bos w s = Some sb"
    and t: "boFromBuffer w pDst = Some t" and db: "bos w t = Some db"
    and ev: "await_flip_events e' c w1 = Some (c', w2)"
  shows "c' = None \<and>
         events KNotify w2 =
           (if do_flip w d (fb_id sb) (fb_id db) sb db
            then (if page_flip_ret e < 0 then events KNotify w
                  else EvDRI2SwapComplete cl pDraw DRI2_FLIP_COMPLETE fn dt # events KNotify w)
            else EvDRI2SwapComplete cl pDraw DRI2_BLIT_COMPLETE fn dt # events KNotify w)"
proof -
  define flip where "flip = do_flip w d (fb_id sb) (fb_id db) sb db"
  define cmd where "cmd = scheduled_cmd e (use_page_flip_events w) flip cl pDraw pDst pSrc fn dt"
  from swap_lifecycle [OF sch ok d s sb t db flip_def cmd_def ev] obtain w6 where
    c': "c' = None" and
    w6: "if flip then w6 = emit (EvPageFlip pDraw (fb_id sb))
                              (emit EvPendingDeletions (refs_taken pDst pSrc s t w))
         else ARMSOCDRI2CopyRegion e pDraw pDst pSrc (refs_taken pDst pSrc s t w) = Some w6" and
    sc: "ARMSOCDRI2SwapComplete (if swapCount cmd = 0 then e else e')
                  (cmd\<lparr>swapCount := 1\<rparr>) w6 = Some (None, w2)"
    by blast
  have e6: "events KNotify w6 = events KNotify w \<and> drawables w6 = drawables w"
  proof (cases flip)
    case True
    with w6 show ?thesis by simp
  next
    case False
    with w6 have "ARMSOCDRI2CopyRegion e pDraw pDst pSrc (refs_taken pDst pSrc s t w) = Some w6"
      by simp
    from CopyRegion_frame [OF this] show ?thesis
      by (auto simp: frame_def dest: static_drawables)
  qed
  from SwapComplete_summary [OF sc] e6 d
  have "events KNotify w2 =
          (if flags cmd AND ARMSOC_SWAP_FAIL = 0 then notify_of (cmd\<lparr>swapCount := 1\<rparr>) # events KNotify w
           else events KNotify w)"
    by (simp add: cmd_def scheduled_cmd_def)
  with c' show ?thesis
    by (simp add: cmd_def scheduled_cmd_def notify_of_def flip_def [symmetric])
qed

theorem notify_once_unless_failed_witness:
  "\<exists>r c w1 c' w2.
     ARMSOCDRI2ScheduleSwap env0 1 7 0 1 5 9 world0 = Some (r, c, w1) \<and>
     await_flip_events env0 c w1 = Some (c', w2) \<and> c \<noteq> None \<and> c' = None \<and>
     events KNotify w2 = [EvDRI2SwapComplete 1 7 DRI2_FLIP_COMPLETE 5 9]"
proof -
  have "ARMSOCDRI2ScheduleSwap env0 1 7 0 1 5 9 world0
          \<bind> (\<lambda>(r, c, w1). if c = None then None else await_flip_events env0 c w1) \<noteq> None"
    by (simp add: model_defs world_defs await_flip_events_def)
  then obtain r c w1 c' w2 where
    sch: "ARMSOCDRI2ScheduleSwap env0 1 7 0 1 5 9 world0 = Some (r, c, w1)" and
    c: "c \<noteq> None" and ev: "await_flip_events env0 c w1 = Some (c', w2)"
    by (auto simp: bind_eq_Some_conv split: if_splits)
  have lk: "calloc_ok env0" "drawables world0 7 = Some win0" "boFromBuffer world0 1 = Some 1"
    "bos world0 1 = Some bo_back" "boFromBuffer world0 0 = Some 0" "bos world0 0 = Some bo_front"
    by (simp_all add: world0_def env0_def boFromBuffer_def pixmap_at_def buf_back_def
          buf_front_def)
  from notify_once_unless_failed [OF sch lk ev] sch ev c
  show ?thesis
    by (simp add: world_defs events_def do_flip_def canflip_def)
qed

lemma DestroyBuffer_drop:
  assumes "ARMSOCDRI2DestroyBuffer b w = Some w'"
  shows "bufs w' = drop_ref b (bufs w) \<and> frame {KDestroy, KDeregister} w w' \<and> bos w' = bos w"
proof -
  from DestroyBuffer_spec [OF assms] obtain buf where
    buf: "bufs w b = Some buf" and
    eq: "bufs w' = (bufs w)(b := if 1 < refcnt buf then Some (buf\<lparr>refcnt := refcnt buf - 1\<rparr>) else None)"
    and fr: "frame {KDestroy, KDeregister} w w'" "bos w' = bos w"
    by blast
  from buf eq have "bufs w' = drop_ref b (bufs w)" by (simp add: drop_ref_def)
  with fr show ?thesis by simp
qed

lemma kind_of_notify [simp]: "kind_of (notify_of cmd) = KNotify"
  by (simp add: notify_of_def)

text \<open>A completion that does not exchange: a failed flip, a drawable that is gone, a blit or a flip without outputs.\<close>

lemma SwapComplete_quiet:
  assumes sc: "ARMSOCDRI2SwapComplete e cmd w = Some (c, w')" and cnt: "swapCount cmd \<le> 1"
    and quiet: "flags cmd AND ARMSOC_SWAP_FAIL \<noteq> 0 \<or> drawables w (draw_id cmd) = None \<or> \<not> real_flip cmd"
  shows "\<exists>s t. boFromBuffer w (pSrcBuffer cmd) = Some s \<and> boFromBuffer w (pDstBuffer cmd) = Some t \<and>
           bufs w' = drop_ref (pDstBuffer cmd) (drop_ref (pSrcBuffer cmd) (bufs w)) \<and>
           bos w' = bo_drop_ref t (bo_drop_ref s (bos w)) \<and>
           scanout w' = scanout w \<and> pending_flips w' = pending_flips w - 1 \<and>
           (\<forall>k. k \<notin> {KNotify, KDestroy, KDeregister} \<longrightarrow> events k w' = events k w)"
proof -
  from SwapComplete_done [OF sc cnt] obtain s t w1 w2 w3 where
    s: "boFromBuffer w (pSrcBuffer cmd) = Some s" and t: "boFromBuffer w (pDstBuffer cmd) = Some t" and
    w1: "(if flags cmd AND ARMSOC_SWAP_FAIL = 0 then swap_not_failed e cmd w else Some w) = Some w1" and
    w2: "ARMSOCDRI2DestroyBuffer (pSrcBuffer cmd) w1 = Some w2" and
    w3: "ARMSOCDRI2DestroyBuffer (pDstBuffer cmd) w2 = Some w3" and
    w': "w' = w3\<lparr>bos := bo_drop_ref t (bo_drop_ref s (bos w3)),
                   pending_flips := pending_flips w3 - 1\<rparr>"
    by blast
  from w1 quiet have "w1 = w \<or> w1 = emit (notify_of cmd) w"
    by (cases "drawables w (draw_id cmd)")
       (auto simp: swap_not_failed_gone swap_not_failed_plain split: if_splits)
  then have f1: "bufs w1 = bufs w \<and> bos w1 = bos w \<and> frame {KNotify} w w1"
    by (auto simp: frame_emit)
  note d2 = DestroyBuffer_drop [OF w2] and d3 = DestroyBuffer_drop [OF w3]
  let ?K = "{KNotify, KDestroy, KDeregister}"
  have g1: "frame ?K w w1" by (rule frame_mono [where K = "{KNotify}"]) (use f1 in auto)
  have g2: "frame ?K w1 w2" by (rule frame_mono [where K = "{KDestroy, KDeregister}"]) (use d2 in auto)
  have g3: "frame ?K w2 w3" by (rule frame_mono [where K = "{KDestroy, KDeregister}"]) (use d3 in auto)
  from frame_trans' [OF g1 frame_trans' [OF g2 g3]] have g: "frame ?K w w3" .
  from f1 d2 d3 have b: "bufs w3 = drop_ref (pDstBuffer cmd) (drop_ref (pSrcBuffer cmd) (bufs w))"
    "bos w3 = bos w" by simp_all
  from g b s t show ?thesis
    by (simp add: w' frame_def)
qed

lemma drop_take_id:
  assumes "m src = Some bs" "m dst = Some bd" "1 \<le> refcnt bs" "1 \<le> refcnt bd"
  shows "drop_ref dst (drop_ref src (take_ref dst (take_ref src m))) = m"
  using assms by (cases "src = dst") (auto simp: drop_ref_def take_ref_def fun_eq_iff)

lemma bo_drop_take_id:
  assumes "m s = Some sb" "m t = Some db"
  shows "bo_drop_ref t (bo_drop_ref s (bo_take_ref t (bo_take_ref s m))) = m"
  using assms by (cases "s = t") (auto simp: bo_drop_ref_def bo_take_ref_def fun_eq_iff)

lemma DestroyBuffer_live:
  assumes "ARMSOCDRI2DestroyBuffer b w = Some w'" "bufs w b = Some buf" "1 < refcnt buf"
  shows "w' = w\<lparr>bufs := drop_ref b (bufs w)\<rparr>"
  using DestroyBuffer_spec [OF assms(1)] assms(2,3) by (auto simp: drop_ref_def)

text \<open>A completion that does not exchange, on buffers that stay alive: the world is the
  old one but for the notification, the two references and the counter.\<close>

lemma SwapComplete_quiet_live:
  assumes sc: "ARMSOCDRI2SwapComplete e cmd w = Some (c, w')" and cnt: "swapCount cmd \<le> 1"
    and quiet: "flags cmd AND ARMSOC_SWAP_FAIL \<noteq> 0 \<or> drawables w (draw_id cmd) = None \<or> \<not> real_flip cmd"
    and bs: "bufs w (pSrcBuffer cmd) = Some bs" and bd: "bufs w (pDstBuffer cmd) = Some bd"
    and live: "if pSrcBuffer cmd = pDstBuffer cmd then 2 < refcnt bs else 1 < refcnt bs \<and> 1 < refcnt bd"
  shows "\<exists>s t. boFromBuffer w (pSrcBuffer cmd) = Some s \<and> boFromBuffer w (pDstBuffer cmd) = Some t \<and>
           w' = (if flags cmd AND ARMSOC_SWAP_FAIL = 0 \<and> drawables w (draw_id cmd) \<noteq> None
                 then emit (notify_of cmd) w else w)
                \<lparr>bufs := drop_ref (pDstBuffer cmd) (drop_ref (pSrcBuffer cmd) (bufs w)),
                  bos := bo_drop_ref t (bo_drop_ref s (bos w)),
                  pending_flips := pending_flips w - 1\<rparr>"
proof -
  from SwapComplete_done [OF sc cnt] obtain s t w1 w2 w3 where
    s: "boFromBuffer w (pSrcBuffer cmd) = Some s" and t: "boFromBuffer w (pDstBuffer cmd) = Some t" and
    w1: "(if flags cmd AND ARMSOC_SWAP_FAIL = 0 then swap_not_failed e cmd w else Some w) = Some w1" and
    w2: "ARMSOCDRI2DestroyBuffer (pSrcBuffer cmd) w1 = Some w2" and
    w3: "ARMSOCDRI2DestroyBuffer (pDstBuffer cmd) w2 = Some w3" and
    w': "w' = w3\<lparr>bos := bo_drop_ref t (bo_drop_ref s (bos w3)),
                   pending_flips := pending_flips w3 - 1\<rparr>"
    by blast
  let ?w1 = "if flags cmd AND ARMSOC_SWAP_FAIL = 0 \<and> drawables w (draw_id cmd) \<noteq> None
             then emit (notify_of cmd) w else w"
  from w1 quiet have e1: "w1 = ?w1"
    by (cases "drawables w (draw_id cmd)")
       (auto simp: swap_not_failed_gone swap_not_failed_plain split: if_splits)
  then have b1: "bufs w1 = bufs w" by simp
  from bs live b1 have "bufs w1 (pSrcBuffer cmd) = Some bs" "1 < refcnt bs"
    by (auto split: if_splits)
  from DestroyBuffer_live [OF w2 this] have e2: "w2 = w1\<lparr>bufs := drop_ref (pSrcBuffer cmd) (bufs w)\<rparr>"
    by (simp add: b1)
  from bs bd live obtain bd' where
    "drop_ref (pSrcBuffer cmd) (bufs w) (pDstBuffer cmd) = Some bd'" "1 < refcnt bd'"
    by (cases "pSrcBuffer cmd = pDstBuffer cmd") (auto simp: drop_ref_def)
  with e2 have "bufs w2 (pDstBuffer cmd) = Some bd'" "1 < refcnt bd'" by simp_all
  from DestroyBuffer_live [OF w3 this]
  have e3: "w3 = w2\<lparr>bufs := drop_ref (pDstBuffer cmd) (drop_ref (pSrcBuffer cmd) (bufs w))\<rparr>"
    by (simp add: e2)
  from s t show ?thesis
    by (simp add: w' e3 e2 e1)
qed

lemma take_ref_live:
  assumes "m src = Some bs" "m dst = Some bd" "1 \<le> refcnt bs" "1 \<le> refcnt bd"
  shows "\<exists>bs' bd'. take_ref dst (take_ref src m) src = Some bs' \<and>
           take_ref dst (take_ref src m) dst = Some bd' \<and>
           (if src = dst then 2 < refcnt bs' else 1 < refcnt bs' \<and> 1 < refcnt bd')"
  using assms by (cases "src = dst") (auto simp: take_ref_def)

text \<open>The world in which a flip is completed, and the completion itself, when the swap
  was scheduled on live buffers and does not exchange.\<close>

lemma quiet_swap_restores:
  assumes sc: "ARMSOCDRI2SwapComplete e cmd w6 = Some (c, w')" and cnt: "swapCount cmd \<le> 1"
    and quiet: "flags cmd AND ARMSOC_SWAP_FAIL \<noteq> 0 \<or> \<not> real_flip cmd"
    and w6: "w6 = emit ev2 (emit ev1 (refs_taken (pDstBuffer cmd) (pSrcBuffer cmd) s t w))"
    and s: "boFromBuffer w (pSrcBuffer cmd) = Some s" and sb: "bos w s = Some sb"
    and t: "boFromBuffer w (pDstBuffer cmd) = Some t" and db: "bos w t = Some db"
    and bs: "bufs w (pSrcBuffer cmd) = Some bs" and bd: "bufs w (pDstBuffer cmd) = Some bd"
    and live: "1 \<le> refcnt bs" "1 \<le> refcnt bd"
  shows "w' = (if flags cmd AND ARMSOC_SWAP_FAIL = 0 \<and> drawables w (draw_id cmd) \<noteq> None
               then emit (notify_of cmd) (emit ev2 (emit ev1 w)) else emit ev2 (emit ev1 w))"
proof -
  from take_ref_live [OF bs bd live] obtain bs' bd' where
    l: "bufs w6 (pSrcBuffer cmd) = Some bs'" "bufs w6 (pDstBuffer cmd) = Some bd'"
       "if pSrcBuffer cmd = pDstBuffer cmd then 2 < refcnt bs' else 1 < refcnt bs' \<and> 1 < refcnt bd'"
    by (auto simp: w6)
  from quiet have q: "flags cmd AND ARMSOC_SWAP_FAIL \<noteq> 0 \<or> drawables w6 (draw_id cmd) = None
      \<or> \<not> real_flip cmd" by blast
  from SwapComplete_quiet_live [OF sc cnt q l] obtain s' t' where
    s': "boFromBuffer w6 (pSrcBuffer cmd) = Some s'" and t': "boFromBuffer w6 (pDstBuffer cmd) = Some t'"
    and w': "w' = (if flags cmd AND ARMSOC_SWAP_FAIL = 0 \<and> drawables w6 (draw_id cmd) \<noteq> None
                 then emit (notify_of cmd) w6 else w6)
                \<lparr>bufs := drop_ref (pDstBuffer cmd) (drop_ref (pSrcBuffer cmd) (bufs w6)),
                  bos := bo_drop_ref t' (bo_drop_ref s' (bos w6)),
                  pending_flips := pending_flips w6 - 1\<rparr>"
    by blast
  have bf: "boFromBuffer w6 x = boFromBuffer w x" for x
    by (simp add: w6 refs_taken_def)
  from s' t' s t have st: "s' = s" "t' = t" by (simp_all add: bf)
  have 1: "drop_ref (pDstBuffer cmd) (drop_ref (pSrcBuffer cmd) (bufs w6)) = bufs w"
    using drop_take_id [OF bs bd live] by (simp add: w6)
  have 2: "bo_drop_ref t (bo_drop_ref s (bos w6)) = bos w"
    using bo_drop_take_id [OF sb db] by (simp add: w6)
  show ?thesis
    unfolding w' st 1 2
    by (simp add: w6 refs_taken_def emit_def)
qed

lemma world0_lookups:
  "drawables world0 7 = Some win0" "boFromBuffer world0 1 = Some 1" "bos world0 1 = Some bo_back"
  "boFromBuffer world0 0 = Some 0" "bos world0 0 = Some bo_front"
  "bufs world0 1 = Some buf_back" "bufs world0 0 = Some buf_front"
  "1 \<le> refcnt buf_back" "1 \<le> refcnt buf_front"
  by (simp_all add: world0_def boFromBuffer_def pixmap_at_def buf_back_def buf_front_def)

text \<open>
  C2.  The claim fails: in the example world a flip request that answers \<open>0\<close> is completed
  inside the call, and afterwards no exchange of pixmaps has been asked for and both
  buffers are what they were, name and current slot included.
\<close>

theorem synthetic_flip_counterexample:
  "map_option (fst \<circ> snd) (ARMSOCDRI2ScheduleSwap (env0\<lparr>page_flip_ret := 0\<rparr>) 1 7 0 1 5 9 world0)
     = Some None \<and>
   map_option (events KExchange \<circ> snd \<circ> snd)
     (ARMSOCDRI2ScheduleSwap (env0\<lparr>page_flip_ret := 0\<rparr>) 1 7 0 1 5 9 world0) = Some [] \<and>
   map_option (buffer_of 1 \<circ> snd \<circ> snd)
     (ARMSOCDRI2ScheduleSwap (env0\<lparr>page_flip_ret := 0\<rparr>) 1 7 0 1 5 9 world0)
     = Some (Some buf_back) \<and>
   map_option (buffer_of 0 \<circ> snd \<circ> snd)
     (ARMSOCDRI2ScheduleSwap (env0\<lparr>page_flip_ret := 0\<rparr>) 1 7 0 1 5 9 world0)
     = Some (Some buf_front)"
  by (simp add: model_defs world_defs buffer_of_def)

text \<open>
  C2, amended.  When the flip request answers \<open>0\<close>, the command carries the flag
  \<^verbatim>\<open>ARMSOC_SWAP_FAKE_FLIP\<close> and is completed inside \<^verbatim>\<open>ARMSOCDRI2ScheduleSwap\<close>.  The
  completion tells the client \<open>DRI2_FLIP_COMPLETE\<close> and gives back the references, and
  that is all: on live buffers the world after the call is the world before it with
  the request for pending deletions, the flip request and the notification added to
  the trace.  Nothing is exchanged, the ring does not advance and no scanout object is
  published.
\<close>

theorem synthetic_flip_skips_exchange:
  assumes sch: "ARMSOCDRI2ScheduleSwap e cl pDraw pDst pSrc fn dt w = Some (r, c, w')"
    and ok: "calloc_ok e"
    and d: "drawables w pDraw = Some d"
    and s: "boFromBuffer w pSrc = Some s" and sb: "bos w s = Some sb"
    and t: "boFromBuffer w pDst = Some t" and db: "bos w t = Some db"
    and flip: "do_flip w d (fb_id sb) (fb_id db) sb db"
    and ret: "page_flip_ret e = 0"
    and bs: "bufs w pSrc = Some bs" and bd: "bufs w pDst = Some bd"
    and live: "1 \<le> refcnt bs" "1 \<le> refcnt bd"
  shows "r \<and> c = None \<and>
         (\<exists>cmd. flags cmd AND ARMSOC_SWAP_FAKE_FLIP \<noteq> 0 \<and> swapCount cmd = 0 \<and>
            ARMSOCDRI2SwapComplete e cmd
              (emit (EvPageFlip pDraw (fb_id sb))
                 (emit EvPendingDeletions (refs_taken pDst pSrc s t w))) = Some (c, w')) \<and>
         w' = emit (EvDRI2SwapComplete cl pDraw DRI2_FLIP_COMPLETE fn dt)
                (emit (EvPageFlip pDraw (fb_id sb)) (emit EvPendingDeletions w))"
proof -
  define cmd where "cmd = scheduled_cmd e (use_page_flip_events w) True cl pDraw pDst pSrc fn dt"
  let ?w6 = "emit (EvPageFlip pDraw (fb_id sb)) (emit EvPendingDeletions (refs_taken pDst pSrc s t w))"
  have f: "True = do_flip w d (fb_id sb) (fb_id db) sb db" using flip by simp
  have cm: "swapCount cmd = 0" "flags cmd = ARMSOC_SWAP_FAKE_FLIP" "pSrcBuffer cmd = pSrc"
    "pDstBuffer cmd = pDst" "draw_id cmd = pDraw"
    "notify_of cmd = EvDRI2SwapComplete cl pDraw DRI2_FLIP_COMPLETE fn dt"
    using ret by (simp_all add: cmd_def scheduled_cmd_def notify_of_def)
  from Schedule_path [OF sch ok d s sb t db f cmd_def] ret cm
  have r: r and sc: "ARMSOCDRI2SwapComplete e cmd ?w6 = Some (c, w')"
    by auto
  from SwapComplete_done [OF sc] cm have c: "c = None" by simp
  have q: "flags cmd AND ARMSOC_SWAP_FAIL \<noteq> 0 \<or> \<not> real_flip cmd"
    by (simp add: cm real_flip_def)
  have w6: "?w6 = emit (EvPageFlip pDraw (fb_id sb))
       (emit EvPendingDeletions (refs_taken (pDstBuffer cmd) (pSrcBuffer cmd) s t w))"
    by (simp add: cm)
  from quiet_swap_restores [OF sc _ q w6] s sb t db bs bd live d cm
  have "w' = emit (EvDRI2SwapComplete cl pDraw DRI2_FLIP_COMPLETE fn dt)
                (emit (EvPageFlip pDraw (fb_id sb)) (emit EvPendingDeletions w))"
    by simp
  with r c sc cm show ?thesis by (intro conjI exI [of _ cmd]) simp_all
qed

theorem synthetic_flip_skips_exchange_witness:
  "\<exists>r c w'. ARMSOCDRI2ScheduleSwap (env0\<lparr>page_flip_ret := 0\<rparr>) 1 7 0 1 5 9 world0 = Some (r, c, w') \<and>
     r \<and> c = None \<and>
     w' = emit (EvDRI2SwapComplete 1 7 DRI2_FLIP_COMPLETE 5 9)
            (emit (EvPageFlip 7 11) (emit EvPendingDeletions world0))"
proof -
  let ?e = "env0\<lparr>page_flip_ret := 0\<rparr>"
  have "ARMSOCDRI2ScheduleSwap ?e 1 7 0 1 5 9 world0 \<noteq> None"
    by (simp add: model_defs world_defs)
  then obtain r c w' where sch: "ARMSOCDRI2ScheduleSwap ?e 1 7 0 1 5 9 world0 = Some (r, c, w')"
    by (cases "ARMSOCDRI2ScheduleSwap ?e 1 7 0 1 5 9 world0") auto
  have ok: "calloc_ok ?e" and ret: "page_flip_ret ?e = 0" by (simp_all add: env0_def)
  have flip: "do_flip world0 win0 (fb_id bo_back) (fb_id bo_front) bo_back bo_front"
    by (simp add: do_flip_def canflip_def world_defs)
  from synthetic_flip_skips_exchange [OF sch ok world0_lookups(1,2,3,4,5) flip ret
      world0_lookups(6,7,8,9)] sch
  show ?thesis by (auto simp: bo_back_def)
qed

lemma flip_events_pending:
  "int k < swapCount cmd \<Longrightarrow>
     flip_events e k cmd w = Some (Some (cmd\<lparr>swapCount := swapCount cmd - int k\<rparr>), w)"
proof (induction k arbitrary: cmd)
  case 0
  then show ?case by simp
next
  case (Suc k)
  then have gt: "1 < swapCount cmd" by simp
  from Suc.prems have "int k < swapCount (cmd\<lparr>swapCount := swapCount cmd - 1\<rparr>)" by simp
  from Suc.IH [OF this] gt show ?case
    by (simp add: SwapComplete_pending algebra_simps)
qed

text \<open>
  C4.  The claim fails where it says \<open>immediately\<close>: with page-flip events in use, a flip
  request that answers \<open>-2\<close> (one output took the flip, another refused) leaves the
  command waiting for one event.  After the call the counter of pending flips is still
  raised and the back buffer still holds its extra reference.
\<close>

theorem failed_flip_counterexample:
  "map_option (fst \<circ> snd) (ARMSOCDRI2ScheduleSwap (env0\<lparr>page_flip_ret := - 2\<rparr>) 1 7 0 1 5 9 world0)
     = Some (Some (cmd0\<lparr>flags := ARMSOC_SWAP_FAIL\<rparr>)) \<and>
   map_option (pending_flips \<circ> snd \<circ> snd)
     (ARMSOCDRI2ScheduleSwap (env0\<lparr>page_flip_ret := - 2\<rparr>) 1 7 0 1 5 9 world0)
     = Some (pending_flips world0 + 1) \<and>
   map_option (buffer_of 1 \<circ> snd \<circ> snd)
     (ARMSOCDRI2ScheduleSwap (env0\<lparr>page_flip_ret := - 2\<rparr>) 1 7 0 1 5 9 world0)
     = Some (Some (buf_back\<lparr>refcnt := 2\<rparr>))"
  by (simp add: model_defs world_defs buffer_of_def cmd0_def)

text \<open>
  C4, amended.  When the flip request answers a negative \<open>ret\<close>, the command carries the
  flag \<^verbatim>\<open>ARMSOC_SWAP_FAIL\<close> and \<^verbatim>\<open>ARMSOCDRI2ScheduleSwap\<close> answers \<open>FALSE\<close>.  The
  completion runs inside the call when page-flip events are not in use or \<open>ret = -1\<close>;
  otherwise the command waits for \<open>-(ret + 1)\<close> flip events, holding its references: as
  long as fewer events have arrived the command is still pending, with its count
  lowered by the number of events and the world untouched, and the completion runs on
  the last of them.  That completion skips the exchange, the
  notification and the publication of the scanout object, gives back the two buffer
  references and the two object references, and lowers the counter: on live buffers
  the world is then the world before the call with the request for pending deletions
  and the flip request added to the trace.
\<close>

theorem failed_flip_releases:
  assumes sch: "ARMSOCDRI2ScheduleSwap e cl pDraw pDst pSrc fn dt w = Some (r, c, w1)"
    and ok: "calloc_ok e"
    and d: "drawables w pDraw = Some d"
    and s: "boFromBuffer w pSrc = Some s" and sb: "bos w s = Some sb"
    and t: "boFromBuffer w pDst = Some t" and db: "bos w t = Some db"
    and flip: "do_flip w d (fb_id sb) (fb_id db) sb db"
    and ret: "page_flip_ret e < 0"
    and bs: "bufs w pSrc = Some bs" and bd: "bufs w pDst = Some bd"
    and live: "1 \<le> refcnt bs" "1 \<le> refcnt bd"
    and ev: "await_flip_events e' c w1 = Some (c', w2)"
  shows "\<not> r \<and> (c = None) = (\<not> use_page_flip_events w \<or> page_flip_ret e = - 1) \<and>
         (\<forall>cmd. c = Some cmd \<longrightarrow>
            flags cmd AND ARMSOC_SWAP_FAIL \<noteq> 0 \<and> swapCount cmd = - (page_flip_ret e + 1) \<and>
            w1 = emit (EvPageFlip pDraw (fb_id sb))
                   (emit EvPendingDeletions (refs_taken pDst pSrc s t w)) \<and>
            (\<forall>k. int k < - (page_flip_ret e + 1) \<longrightarrow>
               flip_events e' k cmd w1
                 = Some (Some (cmd\<lparr>swapCount := - (page_flip_ret e + 1) - int k\<rparr>), w1)) \<and>
            flip_events e' (nat (- (page_flip_ret e + 1))) cmd w1 = Some (None, w2)) \<and>
         c' = None \<and>
         w2 = emit (EvPageFlip pDraw (fb_id sb)) (emit EvPendingDeletions w)"
proof -
  define cmd where "cmd = scheduled_cmd e (use_page_flip_events w) True cl pDraw pDst pSrc fn dt"
  let ?w6 = "emit (EvPageFlip pDraw (fb_id sb)) (emit EvPendingDeletions (refs_taken pDst pSrc s t w))"
  let ?ec = "if swapCount cmd = 0 then e else e'"
  have f: "True = do_flip w d (fb_id sb) (fb_id db) sb db" using flip by simp
  have cm: "flags cmd = ARMSOC_SWAP_FAIL" "pSrcBuffer cmd = pSrc" "pDstBuffer cmd = pDst"
    "swapCount cmd = (if use_page_flip_events w then - (page_flip_ret e + 1) else 0)"
    using ret by (simp_all add: cmd_def scheduled_cmd_def)
  from swap_lifecycle [OF sch ok d s sb t db f cmd_def ev] ret
  have c': "c' = None" and r: "\<not> r" and cn: "(c = None) = (swapCount cmd = 0)"
    and cs: "c \<noteq> None \<longrightarrow> c = Some cmd" and w1: "c \<noteq> None \<longrightarrow> w1 = ?w6"
    and sc: "ARMSOCDRI2SwapComplete ?ec (cmd\<lparr>swapCount := 1\<rparr>) ?w6 = Some (None, w2)"
    by auto
  have q: "flags (cmd\<lparr>swapCount := 1\<rparr>) AND ARMSOC_SWAP_FAIL \<noteq> 0 \<or> \<not> real_flip (cmd\<lparr>swapCount := 1\<rparr>)"
    by (simp add: cm)
  have w6: "?w6 = emit (EvPageFlip pDraw (fb_id sb))
       (emit EvPendingDeletions (refs_taken (pDstBuffer (cmd\<lparr>swapCount := 1\<rparr>))
          (pSrcBuffer (cmd\<lparr>swapCount := 1\<rparr>)) s t w))"
    by (simp add: cm)
  from quiet_swap_restores [OF sc _ q w6] s sb t db bs bd live cm
  have w2: "w2 = emit (EvPageFlip pDraw (fb_id sb)) (emit EvPendingDeletions w)"
    by simp
  from cn cm have cn': "(c = None) = (\<not> use_page_flip_events w \<or> page_flip_ret e = - 1)"
    by auto
  have pend: "\<forall>x. c = Some x \<longrightarrow>
            flags x AND ARMSOC_SWAP_FAIL \<noteq> 0 \<and> swapCount x = - (page_flip_ret e + 1) \<and> w1 = ?w6 \<and>
            (\<forall>k. int k < - (page_flip_ret e + 1) \<longrightarrow>
               flip_events e' k x w1
                 = Some (Some (x\<lparr>swapCount := - (page_flip_ret e + 1) - int k\<rparr>), w1)) \<and>
            flip_events e' (nat (- (page_flip_ret e + 1))) x w1 = Some (None, w2)"
  proof (intro allI impI)
    fix x
    assume cx: "c = Some x"
    with cs have x: "x = cmd" by simp
    from cx cn cm have cnt: "swapCount cmd = - (page_flip_ret e + 1)"
      by (auto split: if_splits)
    from cx w1 have w1': "w1 = ?w6" by simp
    have early: "\<forall>k. int k < - (page_flip_ret e + 1) \<longrightarrow>
               flip_events e' k cmd w1
                 = Some (Some (cmd\<lparr>swapCount := - (page_flip_ret e + 1) - int k\<rparr>), w1)"
      using flip_events_pending [where cmd = cmd and e = e' and w = w1] cnt
      by (simp del: flip_events.simps)
    from ev cx x cnt c' have last: "flip_events e' (nat (- (page_flip_ret e + 1))) cmd w1 = Some (None, w2)"
      by (simp add: await_flip_events_def del: flip_events.simps)
    have a1: "flags cmd AND ARMSOC_SWAP_FAIL \<noteq> 0" by (simp add: cm(1))
    show "flags x AND ARMSOC_SWAP_FAIL \<noteq> 0 \<and> swapCount x = - (page_flip_ret e + 1) \<and> w1 = ?w6 \<and>
            (\<forall>k. int k < - (page_flip_ret e + 1) \<longrightarrow>
               flip_events e' k x w1
                 = Some (Some (x\<lparr>swapCount := - (page_flip_ret e + 1) - int k\<rparr>), w1)) \<and>
            flip_events e' (nat (- (page_flip_ret e + 1))) x w1 = Some (None, w2)"
      unfolding x using a1 cnt w1' early last by (intro conjI) assumption+
  qed
  from r cn' pend c' w2 show ?thesis by (intro conjI) assumption+
qed

theorem failed_flip_releases_witness:
  "\<exists>r cmd w1 w2.
     ARMSOCDRI2ScheduleSwap (env0\<lparr>page_flip_ret := - 3\<rparr>) 1 7 0 1 5 9 world0
       = Some (r, Some cmd, w1) \<and>
     \<not> r \<and> swapCount cmd = 2 \<and>
     flip_events env0 0 cmd w1 = Some (Some cmd, w1) \<and>
     flip_events env0 1 cmd w1 = Some (Some (cmd\<lparr>swapCount := 1\<rparr>), w1) \<and>
     flip_events env0 2 cmd w1 = Some (None, w2) \<and>
     await_flip_events env0 (Some cmd) w1 = Some (None, w2) \<and>
     w2 = emit (EvPageFlip 7 11) (emit EvPendingDeletions world0)"
proof -
  let ?e = "env0\<lparr>page_flip_ret := - 3\<rparr>"
  let ?cmd = "cmd0\<lparr>flags := ARMSOC_SWAP_FAIL, swapCount := 2\<rparr>"
  let ?w1 = "emit (EvPageFlip 7 11) (emit EvPendingDeletions (refs_taken 0 1 1 0 world0))"
  have sch: "ARMSOCDRI2ScheduleSwap ?e 1 7 0 1 5 9 world0 = Some (False, Some ?cmd, ?w1)"
    by (simp add: model_defs world_defs cmd0_def refs_taken_def take_ref_def bo_take_ref_def)
  have "ARMSOCDRI2SwapComplete env0 (?cmd\<lparr>swapCount := 1\<rparr>) ?w1 \<noteq> None"
    by (simp add: model_defs world_defs cmd0_def refs_taken_def take_ref_def bo_take_ref_def)
  then obtain c' w2 where
    sc: "ARMSOCDRI2SwapComplete env0 (?cmd\<lparr>swapCount := 1\<rparr>) ?w1 = Some (c', w2)"
    by (cases "ARMSOCDRI2SwapComplete env0 (?cmd\<lparr>swapCount := 1\<rparr>) ?w1") auto
  have pos: "0 < swapCount ?cmd" by simp
  from flip_events_complete [OF pos, of env0 ?w1] sc
  have ev: "await_flip_events env0 (Some ?cmd) ?w1 = Some (c', w2)"
    by (simp add: await_flip_events_def del: flip_events.simps)
  have ok: "calloc_ok ?e" and ret: "page_flip_ret ?e < 0" by (simp_all add: env0_def)
  have flip: "do_flip world0 win0 (fb_id bo_back) (fb_id bo_front) bo_back bo_front"
    by (simp add: do_flip_def canflip_def world_defs)
  note th = failed_flip_releases [OF sch ok world0_lookups(1,2,3,4,5) flip ret
      world0_lookups(6,7,8,9) ev]
  have pr: "page_flip_ret ?e = - 3" "fb_id bo_back = 11"
    by (simp_all add: env0_def bo_back_def)
  note rest = th [THEN conjunct2, THEN conjunct2]
  note P = rest [THEN conjunct1, rule_format, OF refl]
  from rest [THEN conjunct2, THEN conjunct1] have c': "c' = None" .
  from rest [THEN conjunct2, THEN conjunct2] pr(2)
  have w2: "w2 = emit (EvPageFlip 7 11) (emit EvPendingDeletions world0)" by simp
  note early = P [THEN conjunct2, THEN conjunct2, THEN conjunct2, THEN conjunct1, rule_format]
  note last = P [THEN conjunct2, THEN conjunct2, THEN conjunct2, THEN conjunct2]
  have r: "\<not> False" by simp
  have cnt: "swapCount ?cmd = 2" by simp
  have k0: "flip_events env0 0 ?cmd ?w1 = Some (Some ?cmd, ?w1)" by simp
  from early [of 1] pr(1)
  have k1: "flip_events env0 1 ?cmd ?w1 = Some (Some (?cmd\<lparr>swapCount := 1\<rparr>), ?w1)"
    by (simp del: flip_events.simps)
  from last pr(1) have k2: "flip_events env0 2 ?cmd ?w1 = Some (None, w2)"
    by (simp del: flip_events.simps)
  from ev c' have aw: "await_flip_events env0 (Some ?cmd) ?w1 = Some (None, w2)"
    by (simp del: flip_events.simps)
  from sch r cnt k0 k1 k2 aw w2 show ?thesis
    by (intro exI conjI) assumption+
qed

text \<open>
  C5.  The claim fails where it keeps step 5: in the example a flip is in flight, its
  window is gone, and the event arrives.  The completion runs, yet no scanout object is
  published, although the destination buffer has an object to offer.
\<close>

theorem drawable_gone_counterexample:
  "map_option fst (ARMSOCDRI2SwapComplete env0 cmd0 world_gone) = Some None \<and>
   map_option (events KScanout \<circ> snd) (ARMSOCDRI2SwapComplete env0 cmd0 world_gone) = Some [] \<and>
   map_option (scanout \<circ> snd) (ARMSOCDRI2SwapComplete env0 cmd0 world_gone) = Some None \<and>
   boFromBuffer world_gone (pDstBuffer cmd0) = Some 0"
  by (simp add: model_defs world_defs cmd0_def world_gone_def)

text \<open>
  C5, amended.  When, in the completion of a command that is not flagged as failed, the
  lookup of the drawable by its id fails, the completion skips the exchange of the
  buffers, the notification of the client and the publication of the scanout object
  (steps 3 to 5), and still performs steps 6 and 7: each of the two buffers loses one
  reference (and is freed with its last one), each of the two objects captured at the
  start loses one reference, and the counter of pending flips goes down by one.
\<close>

theorem drawable_gone_skips_publish:
  assumes sc: "ARMSOCDRI2SwapComplete e cmd w = Some (c, w')"
    and cnt: "swapCount cmd \<le> 1"
    and nf: "flags cmd AND ARMSOC_SWAP_FAIL = 0"
    and gone: "drawables w (draw_id cmd) = None"
  shows "c = None \<and>
         events KExchange w' = events KExchange w \<and> events KNotify w' = events KNotify w \<and>
         events KScanout w' = events KScanout w \<and> scanout w' = scanout w \<and>
         (\<exists>s t. boFromBuffer w (pSrcBuffer cmd) = Some s \<and>
                boFromBuffer w (pDstBuffer cmd) = Some t \<and>
                bufs w' = drop_ref (pDstBuffer cmd) (drop_ref (pSrcBuffer cmd) (bufs w)) \<and>
                bos w' = bo_drop_ref t (bo_drop_ref s (bos w))) \<and>
         pending_flips w' = pending_flips w - 1"
proof -
  from gone have q: "flags cmd AND ARMSOC_SWAP_FAIL \<noteq> 0 \<or> drawables w (draw_id cmd) = None
      \<or> \<not> real_flip cmd" by simp
  from SwapComplete_quiet [OF sc cnt q] obtain s t where
    st: "boFromBuffer w (pSrcBuffer cmd) = Some s" "boFromBuffer w (pDstBuffer cmd) = Some t"
      "bufs w' = drop_ref (pDstBuffer cmd) (drop_ref (pSrcBuffer cmd) (bufs w))"
      "bos w' = bo_drop_ref t (bo_drop_ref s (bos w))"
    and rest: "scanout w' = scanout w" "pending_flips w' = pending_flips w - 1"
      "\<forall>k. k \<notin> {KNotify, KDestroy, KDeregister} \<longrightarrow> events k w' = events k w"
    by blast
  from rest(3) have ev: "events KExchange w' = events KExchange w"
    "events KScanout w' = events KScanout w" by simp_all
  from SwapComplete_summary [OF sc cnt] gone
  have c: "c = None" and n: "events KNotify w' = events KNotify w" by simp_all
  from c ev n rest st show ?thesis by blast
qed

theorem drawable_gone_skips_publish_witness:
  "\<exists>c w'. ARMSOCDRI2SwapComplete env0 cmd0 world_gone = Some (c, w') \<and>
     swapCount cmd0 \<le> 1 \<and> flags cmd0 AND ARMSOC_SWAP_FAIL = 0 \<and>
     drawables world_gone (draw_id cmd0) = None \<and>
     c = None \<and> scanout w' = None \<and> events KNotify w' = [] \<and> pending_flips w' = 0"
proof -
  have "ARMSOCDRI2SwapComplete env0 cmd0 world_gone \<noteq> None"
    by (simp add: model_defs world_defs cmd0_def world_gone_def)
  then obtain c w' where sc: "ARMSOCDRI2SwapComplete env0 cmd0 world_gone = Some (c, w')"
    by (cases "ARMSOCDRI2SwapComplete env0 cmd0 world_gone") auto
  have h: "swapCount cmd0 \<le> 1" "flags cmd0 AND ARMSOC_SWAP_FAIL = 0"
    "drawables world_gone (draw_id cmd0) = None"
    by (simp_all add: cmd0_def world_gone_def)
  from drawable_gone_skips_publish [OF sc h] sc h
  show ?thesis by (simp add: world_gone_def world0_def events_def)
qed










lemma ring_size_pos: "(2::u32) < n \<Longrightarrow> 0 < unat (n - 1)"
  by unat_arith

lemma Reuse_front:
  "bufs w buffer = Some buf \<Longrightarrow> attachment buf = DRI2BufferFrontLeft \<Longrightarrow>
     ARMSOCDRI2ReuseBufferNotify e pDraw buffer w = Some w"
  by (simp add: ARMSOCDRI2ReuseBufferNotify_def)

lemma Reuse_back:
  assumes "bufs w buffer = Some buf" "attachment buf \<noteq> DRI2BufferFrontLeft"
    "pixmap_at buf 0 = Some (Some p0)" "pixmaps w p0 = Some px" "pix_bo px = Some bo"
    "bos w bo = Some b" "drawables w pDraw = Some d"
  shows "\<exists>w'. ARMSOCDRI2ReuseBufferNotify e pDraw buffer w = Some w' \<and>
        (if canflip w d \<and> \<not> attempted_fb_alloc buf \<and> fb_id b = 0 then
            events KAddFb w' = EvAddFb bo # events KAddFb w \<and>
            events KRmFb w' = events KRmFb w \<and>
            bufs w' = (bufs w)(buffer \<mapsto> buf\<lparr>attempted_fb_alloc := True\<rparr>) \<and>
            map_option fb_id (bos w' bo) = Some (add_fb_id e)
         else if \<not> canflip w d \<and> fb_id b \<noteq> 0 then
            events KRmFb w' = EvRmFb bo # events KRmFb w \<and>
            events KAddFb w' = events KAddFb w \<and>
            bufs w' = (bufs w)(buffer \<mapsto> buf\<lparr>attempted_fb_alloc := False\<rparr>) \<and>
            map_option fb_id (bos w' bo) = Some 0
         else w' = w)"
  using assms
  by (simp add: ARMSOCDRI2ReuseBufferNotify_def ARMSOCPixmapBo_def armsoc_bo_get_fb_def
        armsoc_bo_add_fb_def armsoc_bo_rm_fb_def Let_def)

lemma Create_ineligible:
  assumes cr: "ARMSOCDRI2CreateBuffer e pDraw att fmt w = Some (Some b, w')"
    and att: "att \<noteq> DRI2BufferFrontLeft"
    and d: "drawables w pDraw = Some d" and nf: "\<not> canflip w d"
  shows "\<exists>nb bo0 k. bufs w' b = Some nb \<and> attachment nb = att \<and> \<not> attempted_fb_alloc nb \<and>
           events KAddFb w' = events KAddFb w \<and>
           new_pixmap e = Some (Some bo0) \<and> boFromBuffer w' b = Some k \<and> bos w' k = Some bo0"
proof -
  from cr d att have ok: "calloc_ok e"
    by (auto simp: ARMSOCDRI2CreateBuffer_def split: if_splits)
  obtain pp w1 where cp: "createpix e d w = (pp, w1)" by (cases "createpix e d w")
  from cr d att ok cp obtain p where pp: "pp = Some p"
    by (cases pp) (auto simp: ARMSOCDRI2CreateBuffer_def)
  from cr d att ok cp pp have ring: "ring_ok e"
    by (auto simp: ARMSOCDRI2CreateBuffer_def Let_def CreateBuffer_fail_def
             split: if_splits option.splits)
  from cp pp obtain obo where np: "new_pixmap e = Some obo"
    by (cases "new_pixmap e") (auto simp: createpix_def Let_def)
  from cr d att ok cp pp ring np obtain bo0 where obo: "obo = Some bo0"
    by (cases obo)
       (auto simp: ARMSOCDRI2CreateBuffer_def Let_def CreateBuffer_fail_def createpix_def
          ARMSOCPixmapBo_def split: if_splits option.splits)
  let ?w0 = "emit (EvCreatePixmap (draw_width d) (draw_height d) (draw_depth d) (canflip w d)) w"
  from cp pp np obo have p: "p = next_pix w"
    and w1: "w1 = ?w0\<lparr>pixmaps := (pixmaps ?w0)(next_pix w \<mapsto> \<lparr>pix_bo = Some (next_bo w), pix_refcnt = 1,
                    devKind = new_devKind e, bitsPerPixel = new_bitsPerPixel e\<rparr>),
                 bos := (bos ?w0)(next_bo w \<mapsto> bo0),
                 next_pix := Suc (next_pix w), next_bo := Suc (next_bo w)\<rparr>"
    by (auto simp: createpix_def Let_def)
  have nf1: "\<not> canflip w1 d" using nf by (simp add: w1 canflip_def)
  from cr d att ok cp pp ring nf1 np obo show ?thesis
    by (auto simp: ARMSOCDRI2CreateBuffer_def Let_def ARMSOCPixmapBo_def w1 p
          boFromBuffer_def pixmap_at_def ring_size_pos)
qed

text \<open>
  C9.  The lazy attachment of framebuffers.  A buffer other than the front one that
  \<^verbatim>\<open>ARMSOCDRI2CreateBuffer\<close> makes for a drawable that cannot flip has
  \<open>attempted_fb_alloc\<close> false, no \<^verbatim>\<open>armsoc_bo_add_fb\<close> was issued for it, and its buffer
  object is the one the allocator returned.  \<^verbatim>\<open>ARMSOCDRI2ReuseBufferNotify\<close> leaves the
  world untouched for a front buffer.  For any other buffer: when the drawable can flip,
  no attachment was attempted and the object has no framebuffer, exactly one
  \<^verbatim>\<open>armsoc_bo_add_fb\<close> is issued and \<open>attempted_fb_alloc\<close> becomes true whatever framebuffer
  id (0 on failure) the attempt leaves; when the drawable cannot flip and the object has a
  framebuffer, the framebuffer is removed and \<open>attempted_fb_alloc\<close> is reset to false; in
  every other case nothing changes.
\<close>

theorem lazy_attachment_policy:
  "(\<forall>b w' d. ARMSOCDRI2CreateBuffer e pDraw att fmt w = Some (Some b, w') \<and>
        att \<noteq> DRI2BufferFrontLeft \<and> drawables w pDraw = Some d \<and> \<not> canflip w d \<longrightarrow>
      (\<exists>nb bo0 k. bufs w' b = Some nb \<and> attachment nb = att \<and> \<not> attempted_fb_alloc nb \<and>
         events KAddFb w' = events KAddFb w \<and>
         new_pixmap e = Some (Some bo0) \<and> boFromBuffer w' b = Some k \<and> bos w' k = Some bo0)) \<and>
   (\<forall>buf. bufs w buffer = Some buf \<and> attachment buf = DRI2BufferFrontLeft \<longrightarrow>
      ARMSOCDRI2ReuseBufferNotify e pDraw buffer w = Some w) \<and>
   (\<forall>buf p0 px bo b d. bufs w buffer = Some buf \<and> attachment buf \<noteq> DRI2BufferFrontLeft \<and>
        pixmap_at buf 0 = Some (Some p0) \<and> pixmaps w p0 = Some px \<and> pix_bo px = Some bo \<and>
        bos w bo = Some b \<and> drawables w pDraw = Some d \<longrightarrow>
      (\<exists>w'. ARMSOCDRI2ReuseBufferNotify e pDraw buffer w = Some w' \<and>
        (if canflip w d \<and> \<not> attempted_fb_alloc buf \<and> fb_id b = 0 then
            events KAddFb w' = EvAddFb bo # events KAddFb w \<and>
            events KRmFb w' = events KRmFb w \<and>
            bufs w' = (bufs w)(buffer \<mapsto> buf\<lparr>attempted_fb_alloc := True\<rparr>) \<and>
            map_option fb_id (bos w' bo) = Some (add_fb_id e)
         else if \<not> canflip w d \<and> fb_id b \<noteq> 0 then
            events KRmFb w' = EvRmFb bo # events KRmFb w \<and>
            events KAddFb w' = events KAddFb w \<and>
            bufs w' = (bufs w)(buffer \<mapsto> buf\<lparr>attempted_fb_alloc := False\<rparr>) \<and>
            map_option fb_id (bos w' bo) = Some 0
         else w' = w)))"
proof (intro conjI allI impI)
  fix b w' d
  assume "ARMSOCDRI2CreateBuffer e pDraw att fmt w = Some (Some b, w') \<and>
        att \<noteq> DRI2BufferFrontLeft \<and> drawables w pDraw = Some d \<and> \<not> canflip w d"
  then show "\<exists>nb bo0 k. bufs w' b = Some nb \<and> attachment nb = att \<and> \<not> attempted_fb_alloc nb \<and>
         events KAddFb w' = events KAddFb w \<and>
         new_pixmap e = Some (Some bo0) \<and> boFromBuffer w' b = Some k \<and> bos w' k = Some bo0"
    using Create_ineligible [of e pDraw att fmt w b w' d] by simp
next
  fix buf
  assume "bufs w buffer = Some buf \<and> attachment buf = DRI2BufferFrontLeft"
  then show "ARMSOCDRI2ReuseBufferNotify e pDraw buffer w = Some w"
    by (simp add: Reuse_front)
next
  fix buf p0 px bo b d
  assume h: "bufs w buffer = Some buf \<and> attachment buf \<noteq> DRI2BufferFrontLeft \<and>
        pixmap_at buf 0 = Some (Some p0) \<and> pixmaps w p0 = Some px \<and> pix_bo px = Some bo \<and>
        bos w bo = Some b \<and> drawables w pDraw = Some d"
  show "\<exists>w'. ARMSOCDRI2ReuseBufferNotify e pDraw buffer w = Some w' \<and>
        (if canflip w d \<and> \<not> attempted_fb_alloc buf \<and> fb_id b = 0 then
            events KAddFb w' = EvAddFb bo # events KAddFb w \<and>
            events KRmFb w' = events KRmFb w \<and>
            bufs w' = (bufs w)(buffer \<mapsto> buf\<lparr>attempted_fb_alloc := True\<rparr>) \<and>
            map_option fb_id (bos w' bo) = Some (add_fb_id e)
         else if \<not> canflip w d \<and> fb_id b \<noteq> 0 then
            events KRmFb w' = EvRmFb bo # events KRmFb w \<and>
            events KAddFb w' = events KAddFb w \<and>
            bufs w' = (bufs w)(buffer \<mapsto> buf\<lparr>attempted_fb_alloc := False\<rparr>) \<and>
            map_option fb_id (bos w' bo) = Some 0
         else w' = w)"
    by (rule Reuse_back [where ?p0.0 = p0 and px = px]) (use h in simp_all)
qed

theorem lazy_attachment_policy_witness:
  "(\<exists>b w'. ARMSOCDRI2CreateBuffer env0 7 DRI2BufferBackLeft 0 world_hidden = Some (Some b, w') \<and>
      drawables world_hidden 7 = Some (win0\<lparr>dri2_can_flip := False\<rparr>) \<and>
      \<not> canflip world_hidden (win0\<lparr>dri2_can_flip := False\<rparr>) \<and>
      map_option attempted_fb_alloc (bufs w' b) = Some False \<and> events KAddFb w' = [] \<and>
      (boFromBuffer w' b \<bind> bos w') = Some bo_new) \<and>
   ARMSOCDRI2ReuseBufferNotify env0 7 0 world_unmapped = Some world_unmapped \<and>
   (\<exists>w'. ARMSOCDRI2ReuseBufferNotify (env0\<lparr>add_fb_id := 0\<rparr>) 7 1 world_unmapped = Some w' \<and>
      events KAddFb w' = [EvAddFb 1] \<and>
      map_option attempted_fb_alloc (bufs w' 1) = Some True \<and>
      map_option fb_id (bos w' 1) = Some 0) \<and>
   (\<exists>w'. ARMSOCDRI2ReuseBufferNotify env0 7 1 world_hidden = Some w' \<and>
      events KRmFb w' = [EvRmFb 1] \<and>
      map_option attempted_fb_alloc (bufs w' 1) = Some False \<and>
      map_option fb_id (bos w' 1) = Some 0)"
proof -
  let ?d = "win0\<lparr>dri2_can_flip := False\<rparr>"
  have "\<exists>b w'. ARMSOCDRI2CreateBuffer env0 7 DRI2BufferBackLeft 0 world_hidden = Some (Some b, w')"
    by (simp add: model_defs world_defs world_hidden_def)
  then obtain b0 w0 where
    cr: "ARMSOCDRI2CreateBuffer env0 7 DRI2BufferBackLeft 0 world_hidden = Some (Some b0, w0)"
    by (elim exE)
  have d: "drawables world_hidden 7 = Some ?d" "\<not> canflip world_hidden ?d"
    "DRI2BufferBackLeft \<noteq> DRI2BufferFrontLeft"
    by (simp_all add: world_hidden_def world0_def canflip_def win0_def const_defs)
  have ev: "events KAddFb world_hidden = []"
    by (simp add: world_hidden_def world0_def events_def)
  have np: "new_pixmap env0 = Some (Some bo_new)" by (simp add: env0_def)
  from lazy_attachment_policy [of env0 7 DRI2BufferBackLeft 0 world_hidden,
      THEN conjunct1, rule_format, of b0 w0 ?d] cr d
  obtain nb bo0 k where c: "bufs w0 b0 = Some nb" "\<not> attempted_fb_alloc nb"
    "events KAddFb w0 = events KAddFb world_hidden" "new_pixmap env0 = Some (Some bo0)"
    "boFromBuffer w0 b0 = Some k" "bos w0 k = Some bo0"
    by (elim exE conjE | simp)+
  from c ev np have A: "map_option attempted_fb_alloc (bufs w0 b0) = Some False"
    "events KAddFb w0 = []" "(boFromBuffer w0 b0 \<bind> bos w0) = Some bo_new"
    by simp_all
  have f: "bufs world_unmapped 0 = Some buf_front \<and> attachment buf_front = DRI2BufferFrontLeft"
    by (simp add: world_unmapped_def world0_def buf_front_def)
  from lazy_attachment_policy [of env0 7 DRI2BufferBackLeft 0 world_unmapped 0,
      THEN conjunct2, THEN conjunct1, rule_format, OF f]
  have B: "ARMSOCDRI2ReuseBufferNotify env0 7 0 world_unmapped = Some world_unmapped" .
  let ?buf = "buf_back\<lparr>attempted_fb_alloc := False\<rparr>"
  let ?px = "\<lparr>pix_bo = Some 1, pix_refcnt = 1, devKind = 2560, bitsPerPixel = 32\<rparr>"
  have u: "bufs world_unmapped 1 = Some ?buf \<and> attachment ?buf \<noteq> DRI2BufferFrontLeft \<and>
        pixmap_at ?buf 0 = Some (Some 1) \<and> pixmaps world_unmapped 1 = Some ?px \<and>
        pix_bo ?px = Some 1 \<and> bos world_unmapped 1 = Some (bo_back\<lparr>fb_id := 0\<rparr>) \<and>
        drawables world_unmapped 7 = Some win0"
    by (simp add: world_unmapped_def world0_def buf_back_def pixmap_at_def const_defs)
  have uc: "canflip world_unmapped win0 \<and> \<not> attempted_fb_alloc ?buf \<and> fb_id (bo_back\<lparr>fb_id := 0\<rparr>) = 0"
    by (simp add: world_unmapped_def world0_def canflip_def win0_def)
  have ue: "events KAddFb world_unmapped = []"
    by (simp add: world_unmapped_def world0_def events_def)
  from lazy_attachment_policy [of "env0\<lparr>add_fb_id := 0\<rparr>" 7 DRI2BufferBackLeft 0 world_unmapped 1,
      THEN conjunct2, THEN conjunct2, rule_format, OF u]
  obtain w1 where r1: "ARMSOCDRI2ReuseBufferNotify (env0\<lparr>add_fb_id := 0\<rparr>) 7 1 world_unmapped = Some w1"
    and x1: "events KAddFb w1 = EvAddFb 1 # events KAddFb world_unmapped"
      "bufs w1 = (bufs world_unmapped)(1 \<mapsto> ?buf\<lparr>attempted_fb_alloc := True\<rparr>)"
      "map_option fb_id (bos w1 1) = Some (add_fb_id (env0\<lparr>add_fb_id := 0\<rparr>))"
    unfolding if_P [OF uc] by (elim exE conjE)
  from x1 ue have C: "events KAddFb w1 = [EvAddFb 1]"
    "map_option attempted_fb_alloc (bufs w1 1) = Some True"
    "map_option fb_id (bos w1 1) = Some 0"
    by simp_all
  have h: "bufs world_hidden 1 = Some buf_back \<and> attachment buf_back \<noteq> DRI2BufferFrontLeft \<and>
        pixmap_at buf_back 0 = Some (Some 1) \<and> pixmaps world_hidden 1 = Some ?px \<and>
        pix_bo ?px = Some 1 \<and> bos world_hidden 1 = Some bo_back \<and>
        drawables world_hidden 7 = Some ?d"
    by (simp add: world_hidden_def world0_def buf_back_def pixmap_at_def const_defs)
  have hc1: "\<not> (canflip world_hidden ?d \<and> \<not> attempted_fb_alloc buf_back \<and> fb_id bo_back = 0)"
    and hc2: "\<not> canflip world_hidden ?d \<and> fb_id bo_back \<noteq> 0"
    by (simp_all add: world_hidden_def world0_def canflip_def win0_def bo_back_def)
  have he: "events KRmFb world_hidden = []"
    by (simp add: world_hidden_def world0_def events_def)
  from lazy_attachment_policy [of env0 7 DRI2BufferBackLeft 0 world_hidden 1,
      THEN conjunct2, THEN conjunct2, rule_format, OF h]
  obtain w2 where r2: "ARMSOCDRI2ReuseBufferNotify env0 7 1 world_hidden = Some w2"
    and x2: "events KRmFb w2 = EvRmFb 1 # events KRmFb world_hidden"
      "bufs w2 = (bufs world_hidden)(1 \<mapsto> buf_back\<lparr>attempted_fb_alloc := False\<rparr>)"
      "map_option fb_id (bos w2 1) = Some 0"
    unfolding if_not_P [OF hc1] if_P [OF hc2] by (elim exE conjE)
  from x2 he have D: "events KRmFb w2 = [EvRmFb 1]"
    "map_option attempted_fb_alloc (bufs w2 1) = Some False"
    by simp_all
  from cr d A B r1 C r2 D x2(3) show ?thesis
    by (intro exI conjI) assumption+
qed

lemma unat_succ_mod:
  fixes c n :: u32
  assumes "c < n"
  shows "unat ((c + 1) mod n) = (unat c + 1) mod unat n"
proof -
  from assms have "unat c < unat n" by (simp add: word_less_nat_alt)
  moreover have "unat n < 2 ^ 32" using unsigned_less [of n] by simp
  ultimately have "unat c + unat (1::u32) < 2 ^ LENGTH(32)" by simp
  then have "unat (c + 1) = unat c + unat (1::u32)" by (simp only: unat_add_lem)
  then show ?thesis by (simp add: unat_mod)
qed

lemma succ_mod_pos:
  fixes c n :: u32
  assumes "c < n" "0 < (c + 1) mod n"
  shows "(c + 1) mod n = c + 1"
proof -
  have "unat ((c + 1) mod n) = (unat c + 1) mod unat n" using assms(1) by (rule unat_succ_mod)
  moreover from assms(1) have lt: "unat c < unat n" by (simp add: word_less_nat_alt)
  moreover from assms(2) have "0 < unat ((c + 1) mod n)" by (simp add: word_less_nat_alt)
  ultimately have "unat c + 1 \<noteq> unat n" by auto
  with lt have "unat c + 1 < unat n" by simp
  then have "(unat c + 1) mod unat n = unat c + 1" by simp
  moreover have "unat n < 2 ^ 32" using unsigned_less [of n] by simp
  with lt have "unat c + unat (1::u32) < 2 ^ LENGTH(32)" by simp
  then have "unat (c + 1) = unat c + unat (1::u32)" by (simp only: unat_add_lem)
  ultimately have "unat ((c + 1) mod n) = unat (c + 1)"
    using \<open>unat ((c + 1) mod n) = (unat c + 1) mod unat n\<close> by simp
  then show ?thesis by (simp only: word_unat_eq_iff)
qed

lemma pixmap_at_currentPixmap:
  "pixmap_at (buf\<lparr>currentPixmap := c\<rparr>) i = pixmap_at buf i"
  "pPixmaps (buf\<lparr>currentPixmap := c\<rparr>) = pPixmaps buf"
  by (simp_all add: pixmap_at_def)

lemma nextBuffer_reuse:
  assumes "drawables w pDraw = Some d" "2 < driNumBufs w" "bufs w b = Some buf"
    "currentPixmap buf < numPixmaps buf"
    "pixmap_at buf (unat ((currentPixmap buf + 1) mod numPixmaps buf)) = Some (Some p)"
    "pixmaps w p = Some px" "pix_bo px = Some bo" "bos w bo = Some bor"
  shows "nextBuffer e pDraw b w =
           Some (w\<lparr>bufs := (bufs w)(b \<mapsto> buf\<lparr>currentPixmap := (currentPixmap buf + 1) mod numPixmaps buf,
                                              name := bo_name bor\<rparr>)\<rparr>)"
proof -
  from assms(2) have n: "\<not> driNumBufs w \<le> 2" by (simp add: not_le)
  from assms(4) have nz: "numPixmaps buf \<noteq> 0" by (auto simp: word_less_nat_alt)
  from assms n nz show ?thesis
    by (simp add: nextBuffer_def Let_def pixmap_at_currentPixmap ARMSOCPixmapBo_def)
qed

lemma nextBuffer_alloc:
  assumes "drawables w pDraw = Some d" "2 < driNumBufs w" "bufs w b = Some buf"
    "currentPixmap buf < numPixmaps buf"
    "pixmap_at buf (unat ((currentPixmap buf + 1) mod numPixmaps buf)) = Some None"
    "allocNextBuffer e d w = Some (Some (p, nm), w1)"
  shows "nextBuffer e pDraw b w =
           Some (w1\<lparr>bufs := (bufs w1)(b \<mapsto>
              buf\<lparr>currentPixmap := (currentPixmap buf + 1) mod numPixmaps buf,
                  pPixmaps := (pPixmaps buf)[unat ((currentPixmap buf + 1) mod numPixmaps buf) := Some p],
                  name := nm\<rparr>)\<rparr>)"
proof -
  from assms(2) have n: "\<not> driNumBufs w \<le> 2" by (simp add: not_le)
  from assms(4) have nz: "numPixmaps buf \<noteq> 0" by (auto simp: word_less_nat_alt)
  from assms n nz show ?thesis
    by (simp add: nextBuffer_def Let_def pixmap_at_currentPixmap)
qed

lemma nextBuffer_fail:
  assumes "drawables w pDraw = Some d" "2 < driNumBufs w" "bufs w b = Some buf"
    "currentPixmap buf < numPixmaps buf"
    "pixmap_at buf (unat ((currentPixmap buf + 1) mod numPixmaps buf)) = Some None"
    "allocNextBuffer e d w = Some (None, w1)"
  shows "nextBuffer e pDraw b w =
           (if 0 < (currentPixmap buf + 1) mod numPixmaps buf
            then Some (w1\<lparr>bufs := (bufs w1)(b \<mapsto>
                   buf\<lparr>currentPixmap := currentPixmap buf, numPixmaps := currentPixmap buf + 1\<rparr>)\<rparr>)
            else None)"
proof -
  from assms(2) have n: "\<not> driNumBufs w \<le> 2" by (simp add: not_le)
  from assms(4) have nz: "numPixmaps buf \<noteq> 0" by (auto simp: word_less_nat_alt)
  show ?thesis
  proof (cases "0 < (currentPixmap buf + 1) mod numPixmaps buf")
    case True
    with assms(4) have eq: "(currentPixmap buf + 1) mod numPixmaps buf = currentPixmap buf + 1"
      by (rule succ_mod_pos)
    from assms n nz True show ?thesis
      by (simp add: nextBuffer_def Let_def pixmap_at_currentPixmap eq)
  next
    case False
    with assms n nz show ?thesis
      by (simp add: nextBuffer_def Let_def pixmap_at_currentPixmap)
  qed
qed

lemma ring_full_slot:
  assumes "ring_full w b" "bufs w b = Some buf" "i < unat (numPixmaps buf)"
  shows "\<exists>p px bo bor. pixmap_at buf i = Some (Some p) \<and> pixmaps w p = Some px \<and>
           pix_bo px = Some bo \<and> bos w bo = Some bor"
proof -
  from assms have len: "i < length (pPixmaps buf)"
    and all: "list_all (slot_allocated w) (take (unat (numPixmaps buf)) (pPixmaps buf))"
    by (simp_all add: ring_full_def)
  from assms(3) len have "take (unat (numPixmaps buf)) (pPixmaps buf) ! i = pPixmaps buf ! i"
    and "i < length (take (unat (numPixmaps buf)) (pPixmaps buf))"
    by simp_all
  with all have "slot_allocated w (pPixmaps buf ! i)"
    by (metis list_all_length)
  with len show ?thesis
    by (auto simp: slot_allocated_def pixmap_at_def split: option.splits)
qed

lemma ring_full_step:
  assumes "ring_full w b" "bufs w b = Some buf" "c < numPixmaps buf"
  shows "ring_full (w\<lparr>bufs := (bufs w)(b \<mapsto> buf\<lparr>currentPixmap := c, name := nm\<rparr>)\<rparr>) b"
proof -
  have "slot_allocated (w\<lparr>bufs := (bufs w)(b \<mapsto> buf\<lparr>currentPixmap := c, name := nm\<rparr>)\<rparr>) = slot_allocated w"
    by (simp add: slot_allocated_def fun_eq_iff split: option.splits)
  with assms show ?thesis by (simp add: ring_full_def)
qed

lemma nextBuffer_times_cycle:
  assumes "drawables w pDraw = Some d" "2 < driNumBufs w" "bufs w b = Some buf" "ring_full w b"
  shows "\<exists>w' buf'. nextBuffer_times e pDraw b n w = Some w' \<and> trace w' = trace w \<and>
           pixmaps w' = pixmaps w \<and> bos w' = bos w \<and> bufs w' b = Some buf' \<and>
           numPixmaps buf' = numPixmaps buf \<and> pPixmaps buf' = pPixmaps buf \<and>
           unat (currentPixmap buf') = (unat (currentPixmap buf) + n) mod unat (numPixmaps buf)"
  using assms
proof (induction n arbitrary: w buf)
  case 0
  then have "currentPixmap buf < numPixmaps buf" by (simp add: ring_full_def)
  then have "unat (currentPixmap buf) < unat (numPixmaps buf)" by (simp add: word_less_nat_alt)
  with 0 show ?case by simp
next
  case (Suc n)
  let ?nxt = "(currentPixmap buf + 1) mod numPixmaps buf"
  from Suc.prems have lt: "currentPixmap buf < numPixmaps buf" by (simp add: ring_full_def)
  then have nz: "numPixmaps buf \<noteq> 0" by (auto simp: word_less_nat_alt)
  then have nlt: "?nxt < numPixmaps buf" by (simp add: word_mod_less_divisor word_gt_0)
  then have "unat ?nxt < unat (numPixmaps buf)" by (simp add: word_less_nat_alt)
  from ring_full_slot [OF Suc.prems(4) Suc.prems(3) this]
  obtain p px bo bor where slot: "pixmap_at buf (unat ?nxt) = Some (Some p)"
    "pixmaps w p = Some px" "pix_bo px = Some bo" "bos w bo = Some bor"
    by blast
  let ?buf1 = "buf\<lparr>currentPixmap := ?nxt, name := bo_name bor\<rparr>"
  let ?w1 = "w\<lparr>bufs := (bufs w)(b \<mapsto> ?buf1)\<rparr>"
  have step: "nextBuffer e pDraw b w = Some ?w1"
    using Suc.prems(1,2,3) lt slot by (rule nextBuffer_reuse)
  have p1: "drawables ?w1 pDraw = Some d" "2 < driNumBufs ?w1" "bufs ?w1 b = Some ?buf1"
    using Suc.prems by simp_all
  have p2: "ring_full ?w1 b" using Suc.prems(4) Suc.prems(3) nlt by (rule ring_full_step)
  from Suc.IH [OF p1 p2] obtain w' buf' where
    r: "nextBuffer_times e pDraw b n ?w1 = Some w'" "trace w' = trace ?w1"
      "pixmaps w' = pixmaps ?w1" "bos w' = bos ?w1" "bufs w' b = Some buf'"
      "numPixmaps buf' = numPixmaps ?buf1" "pPixmaps buf' = pPixmaps ?buf1"
      "unat (currentPixmap buf') = (unat (currentPixmap ?buf1) + n) mod unat (numPixmaps ?buf1)"
    by blast
  have "unat (currentPixmap buf') = ((unat (currentPixmap buf) + 1) mod unat (numPixmaps buf) + n)
          mod unat (numPixmaps buf)"
    using r(8) unat_succ_mod [OF lt] by simp
  also have "\<dots> = (unat (currentPixmap buf) + Suc n) mod unat (numPixmaps buf)"
    by (simp add: mod_add_left_eq)
  finally have cur: "unat (currentPixmap buf') =
     (unat (currentPixmap buf) + Suc n) mod unat (numPixmaps buf)" .
  from step r cur show ?case by simp
qed

text \<open>
  C6.  \<^verbatim>\<open>nextBuffer\<close> on a drawable whose screen is configured for more than two buffers,
  for a buffer whose \<open>currentPixmap\<close> is below \<open>numPixmaps\<close>.  The slot it moves to is
  \<open>(currentPixmap + 1) mod numPixmaps\<close>, in machine arithmetic and as natural numbers alike.
  If that slot holds a pixmap, the only change of the whole world is that the buffer has the
  new \<open>currentPixmap\<close> and the name of the pixmap's buffer object: nothing is allocated.
  If the slot is empty and \<^verbatim>\<open>allocNextBuffer\<close> succeeds, the new pixmap is stored in the slot
  and its name published.  If the slot is empty and \<^verbatim>\<open>allocNextBuffer\<close> fails, then for a
  slot other than 0 \<open>currentPixmap\<close> keeps its previous value and \<open>numPixmaps\<close> becomes
  \<open>currentPixmap + 1\<close>, and for slot 0 the assertion fails; an empty slot is never slot 0 when
  slot 0 holds a pixmap.  On a full ring, any number \<open>k\<close> of calls in a row succeeds, leaves
  the trace, the pixmaps and the buffer objects as they were, keeps \<open>numPixmaps\<close>, and ends
  with \<open>currentPixmap = (currentPixmap + k) mod numPixmaps\<close>.
\<close>

theorem nextBuffer_advances:
  assumes d: "drawables w pDraw = Some d" and n: "2 < driNumBufs w"
    and buf: "bufs w b = Some buf" and lt: "currentPixmap buf < numPixmaps buf"
  shows "unat ((currentPixmap buf + 1) mod numPixmaps buf) =
           (unat (currentPixmap buf) + 1) mod unat (numPixmaps buf) \<and>
    (\<forall>p px bo bor.
        pixmap_at buf (unat ((currentPixmap buf + 1) mod numPixmaps buf)) = Some (Some p) \<and>
        pixmaps w p = Some px \<and> pix_bo px = Some bo \<and> bos w bo = Some bor \<longrightarrow>
        nextBuffer e pDraw b w =
          Some (w\<lparr>bufs := (bufs w)(b \<mapsto>
                  buf\<lparr>currentPixmap := (currentPixmap buf + 1) mod numPixmaps buf,
                      name := bo_name bor\<rparr>)\<rparr>)) \<and>
    (\<forall>p nm w1.
        pixmap_at buf (unat ((currentPixmap buf + 1) mod numPixmaps buf)) = Some None \<and>
        allocNextBuffer e d w = Some (Some (p, nm), w1) \<longrightarrow>
        nextBuffer e pDraw b w =
          Some (w1\<lparr>bufs := (bufs w1)(b \<mapsto>
                  buf\<lparr>currentPixmap := (currentPixmap buf + 1) mod numPixmaps buf,
                      pPixmaps := (pPixmaps buf)
                         [unat ((currentPixmap buf + 1) mod numPixmaps buf) := Some p],
                      name := nm\<rparr>)\<rparr>)) \<and>
    (\<forall>w1.
        pixmap_at buf (unat ((currentPixmap buf + 1) mod numPixmaps buf)) = Some None \<and>
        allocNextBuffer e d w = Some (None, w1) \<longrightarrow>
        nextBuffer e pDraw b w =
          (if 0 < (currentPixmap buf + 1) mod numPixmaps buf
           then Some (w1\<lparr>bufs := (bufs w1)(b \<mapsto>
                   buf\<lparr>currentPixmap := currentPixmap buf,
                       numPixmaps := currentPixmap buf + 1\<rparr>)\<rparr>)
           else None)) \<and>
    (pixmap_at buf 0 \<noteq> Some None \<and>
     pixmap_at buf (unat ((currentPixmap buf + 1) mod numPixmaps buf)) = Some None \<longrightarrow>
        0 < (currentPixmap buf + 1) mod numPixmaps buf) \<and>
    (ring_full w b \<longrightarrow>
       (\<forall>k. \<exists>w' buf'. nextBuffer_times e pDraw b k w = Some w' \<and> trace w' = trace w \<and>
           pixmaps w' = pixmaps w \<and> bos w' = bos w \<and> bufs w' b = Some buf' \<and>
           numPixmaps buf' = numPixmaps buf \<and> pPixmaps buf' = pPixmaps buf \<and>
           unat (currentPixmap buf') = (unat (currentPixmap buf) + k) mod unat (numPixmaps buf)))"
proof (intro conjI allI impI)
  show "unat ((currentPixmap buf + 1) mod numPixmaps buf) =
           (unat (currentPixmap buf) + 1) mod unat (numPixmaps buf)"
    using lt by (rule unat_succ_mod)
next
  fix p px bo bor
  assume "pixmap_at buf (unat ((currentPixmap buf + 1) mod numPixmaps buf)) = Some (Some p) \<and>
        pixmaps w p = Some px \<and> pix_bo px = Some bo \<and> bos w bo = Some bor"
  then show "nextBuffer e pDraw b w =
          Some (w\<lparr>bufs := (bufs w)(b \<mapsto>
                  buf\<lparr>currentPixmap := (currentPixmap buf + 1) mod numPixmaps buf,
                      name := bo_name bor\<rparr>)\<rparr>)"
    using nextBuffer_reuse [OF d n buf lt, of p px bo bor e] by simp
next
  fix p nm w1
  assume "pixmap_at buf (unat ((currentPixmap buf + 1) mod numPixmaps buf)) = Some None \<and>
        allocNextBuffer e d w = Some (Some (p, nm), w1)"
  then show "nextBuffer e pDraw b w =
          Some (w1\<lparr>bufs := (bufs w1)(b \<mapsto>
                  buf\<lparr>currentPixmap := (currentPixmap buf + 1) mod numPixmaps buf,
                      pPixmaps := (pPixmaps buf)
                         [unat ((currentPixmap buf + 1) mod numPixmaps buf) := Some p],
                      name := nm\<rparr>)\<rparr>)"
    using nextBuffer_alloc [OF d n buf lt, of e p nm w1] by simp
next
  fix w1
  assume "pixmap_at buf (unat ((currentPixmap buf + 1) mod numPixmaps buf)) = Some None \<and>
        allocNextBuffer e d w = Some (None, w1)"
  then show "nextBuffer e pDraw b w =
          (if 0 < (currentPixmap buf + 1) mod numPixmaps buf
           then Some (w1\<lparr>bufs := (bufs w1)(b \<mapsto>
                   buf\<lparr>currentPixmap := currentPixmap buf,
                       numPixmaps := currentPixmap buf + 1\<rparr>)\<rparr>)
           else None)"
    using nextBuffer_fail [OF d n buf lt, of e w1] by simp
next
  assume a: "pixmap_at buf 0 \<noteq> Some None \<and>
     pixmap_at buf (unat ((currentPixmap buf + 1) mod numPixmaps buf)) = Some None"
  show "0 < (currentPixmap buf + 1) mod numPixmaps buf"
  proof (rule ccontr)
    assume "\<not> 0 < (currentPixmap buf + 1) mod numPixmaps buf"
    then have "(currentPixmap buf + 1) mod numPixmaps buf = 0" by (simp add: word_gt_0)
    with a show False by simp
  qed
next
  fix k
  assume "ring_full w b"
  with d n buf show "\<exists>w' buf'. nextBuffer_times e pDraw b k w = Some w' \<and> trace w' = trace w \<and>
           pixmaps w' = pixmaps w \<and> bos w' = bos w \<and> bufs w' b = Some buf' \<and>
           numPixmaps buf' = numPixmaps buf \<and> pPixmaps buf' = pPixmaps buf \<and>
           unat (currentPixmap buf') = (unat (currentPixmap buf) + k) mod unat (numPixmaps buf)"
    by (rule nextBuffer_times_cycle)
qed

theorem nextBuffer_advances_witness:
  "drawables world_ring 7 = Some win0 \<and> 2 < driNumBufs world_ring \<and> ring_full world_ring 1 \<and>
   map_option (\<lambda>w'. (map_option (\<lambda>x. (currentPixmap x, name x)) (bufs w' 1), trace w'))
     (nextBuffer env0 7 1 world_ring) = Some (Some (1, 102), []) \<and>
   (\<exists>w' buf'. nextBuffer_times env0 7 1 3 world_ring = Some w' \<and> trace w' = [] \<and>
      bufs w' 1 = Some buf' \<and> numPixmaps buf' = 3 \<and> currentPixmap buf' = 0) \<and>
   (\<exists>w' buf'. nextBuffer_times env0 7 1 5 world_ring = Some w' \<and> trace w' = [] \<and>
      bufs w' 1 = Some buf' \<and> numPixmaps buf' = 3 \<and> currentPixmap buf' = 2) \<and>
   map_option (\<lambda>w'. map_option (\<lambda>x. (currentPixmap x, numPixmaps x)) (bufs w' 1))
     (nextBuffer (env0\<lparr>new_pixmap := None\<rparr>) 7 1 world0) = Some (Some (0, 1))"
proof -
  let ?rb = "buf_back\<lparr>pPixmaps := [Some 1, Some 2, Some 3]\<rparr>"
  let ?px = "\<lparr>pix_bo = Some 2, pix_refcnt = 1, devKind = 2560, bitsPerPixel = 32\<rparr>"
  have h: "drawables world_ring 7 = Some win0" "2 < driNumBufs world_ring"
    "bufs world_ring 1 = Some ?rb" "currentPixmap ?rb < numPixmaps ?rb"
    by (simp_all add: world_ring_def world0_def buf_back_def)
  have full: "ring_full world_ring 1"
    by (simp add: ring_full_def slot_allocated_def world_ring_def world0_def buf_back_def)
  have nx: "(currentPixmap buf_back + 1) mod numPixmaps buf_back = 1" "currentPixmap buf_back = 0"
    "numPixmaps buf_back = 3"
    by (simp_all add: buf_back_def)
  have slot: "pixmap_at ?rb (unat ((currentPixmap ?rb + 1) mod numPixmaps ?rb)) = Some (Some 2) \<and>
     pixmaps world_ring 2 = Some ?px \<and> pix_bo ?px = Some 2 \<and> bos world_ring 2 = Some bo_new"
    by (simp add: nx pixmap_at_def world_ring_def world0_def)
  note T = nextBuffer_advances [OF h, of env0]
  from T [THEN conjunct2, THEN conjunct1, rule_format, OF slot]
  have A: "map_option (\<lambda>w'. (map_option (\<lambda>x. (currentPixmap x, name x)) (bufs w' 1), trace w'))
     (nextBuffer env0 7 1 world_ring) = Some (Some (1, 102), [])"
    by (simp add: nx bo_new_def world_ring_def world0_def)
  note cyc = T [THEN conjunct2, THEN conjunct2, THEN conjunct2, THEN conjunct2, THEN conjunct2,
      rule_format, OF full]
  have tr: "trace world_ring = []" by (simp add: world_ring_def world0_def)
  from cyc [of 3] obtain w3 b3 where
    c3: "nextBuffer_times env0 7 1 3 world_ring = Some w3" "trace w3 = trace world_ring"
      "bufs w3 1 = Some b3" "numPixmaps b3 = numPixmaps ?rb"
      "unat (currentPixmap b3) = (unat (currentPixmap ?rb) + 3) mod unat (numPixmaps ?rb)"
    by (elim exE conjE)
  from c3(5) have "unat (currentPixmap b3) = 0" by (simp add: nx)
  then have "currentPixmap b3 = 0" by (simp add: unat_eq_0)
  with c3 tr nx have B: "nextBuffer_times env0 7 1 3 world_ring = Some w3" "trace w3 = []"
      "bufs w3 1 = Some b3" "numPixmaps b3 = 3" "currentPixmap b3 = 0"
    by simp_all
  from cyc [of 5] obtain w5 b5 where
    c5: "nextBuffer_times env0 7 1 5 world_ring = Some w5" "trace w5 = trace world_ring"
      "bufs w5 1 = Some b5" "numPixmaps b5 = numPixmaps ?rb"
      "unat (currentPixmap b5) = (unat (currentPixmap ?rb) + 5) mod unat (numPixmaps ?rb)"
    by (elim exE conjE)
  from c5(5) have "unat (currentPixmap b5) = unat (2::u32)" by (simp add: nx)
  then have "currentPixmap b5 = 2" by (simp only: word_unat_eq_iff)
  with c5 tr nx have C: "nextBuffer_times env0 7 1 5 world_ring = Some w5" "trace w5 = []"
      "bufs w5 1 = Some b5" "numPixmaps b5 = 3" "currentPixmap b5 = 2"
    by simp_all
  let ?e = "env0\<lparr>new_pixmap := None\<rparr>"
  have g: "drawables world0 7 = Some win0" "2 < driNumBufs world0"
    "bufs world0 1 = Some buf_back" "currentPixmap buf_back < numPixmaps buf_back"
    by (simp_all add: world0_def buf_back_def)
  have "\<exists>w1. allocNextBuffer ?e win0 world0 = Some (None, w1)"
    by (simp add: allocNextBuffer_def createpix_def Let_def env0_def)
  then obtain w1 where al: "allocNextBuffer ?e win0 world0 = Some (None, w1)" by (elim exE)
  have ny: "(currentPixmap buf_back + 1) mod numPixmaps buf_back = 1"
    by (simp add: buf_back_def)
  have miss: "pixmap_at buf_back (unat ((currentPixmap buf_back + 1) mod numPixmaps buf_back)) = Some None \<and>
      allocNextBuffer ?e win0 world0 = Some (None, w1)"
    using al by (simp add: ny pixmap_at_def buf_back_def)
  from nextBuffer_advances [OF g, of ?e, THEN conjunct2, THEN conjunct2, THEN conjunct2,
      THEN conjunct1, rule_format, OF miss]
  have D: "map_option (\<lambda>w'. map_option (\<lambda>x. (currentPixmap x, numPixmaps x)) (bufs w' 1))
     (nextBuffer ?e 7 1 world0) = Some (Some (0, 1))"
    by (simp add: ny buf_back_def)
  from h(1,2) full A B C D show ?thesis
    by (intro exI conjI) assumption+
qed

end
